theory Spec2Isabelle
  imports Complex_Main "HOL-Library.Word" "HOL-Library.Monad_Syntax" "HOL-Library.Log_Nat"
begin

unbundle bit_operations_syntax


section \<open>Bus engine (iic_abstract.c)\<close>

type_synonym u8 = "8 word"
type_synonym u16 = "16 word"
type_synonym u32 = "32 word"

datatype IIC_Result =
  IIC_OK | IIC_ERR_NACK | IIC_ERR_TIMEOUT | IIC_ERR_BUS_BUSY | IIC_ERR_INVALID_PARAM

datatype hal_event =
  Delay_us u32 | Delay_ms u32 | Set_sda u8 | Set_scl u8 | Read_sda | Sda_mode u8

record hal_world =
  trace :: "hal_event list"
  sda_in :: "nat \<Rightarrow> u8"
  sda_pos :: nat

record IIC_HAL_Ops =
  delay_us :: bool
  delay_ms :: bool
  sda_mode :: bool

record IIC_Handle =
  hal_ops :: IIC_HAL_Ops
  speed_khz :: u32
  timeout_ms :: u16
  bus_busy :: u8

definition emit :: "hal_event \<Rightarrow> hal_world \<Rightarrow> hal_world" where
  "emit e w = w\<lparr>trace := trace w @ [e]\<rparr>"

definition hal_set_sda :: "u8 \<Rightarrow> hal_world \<Rightarrow> hal_world option" where
  "hal_set_sda level w = Some (emit (Set_sda level) w)"

definition hal_set_scl :: "u8 \<Rightarrow> hal_world \<Rightarrow> hal_world option" where
  "hal_set_scl level w = Some (emit (Set_scl level) w)"

definition hal_read_sda :: "hal_world \<Rightarrow> (u8 \<times> hal_world) option" where
  "hal_read_sda w =
     Some (sda_in w (sda_pos w), (emit Read_sda w)\<lparr>sda_pos := Suc (sda_pos w)\<rparr>)"

definition hal_sda_mode :: "IIC_Handle \<Rightarrow> u8 \<Rightarrow> hal_world \<Rightarrow> hal_world option" where
  "hal_sda_mode h is_output w =
     (if sda_mode (hal_ops h) then Some (emit (Sda_mode is_output) w) else None)"

definition hal_delay_ms :: "u32 \<Rightarrow> hal_world \<Rightarrow> hal_world option" where
  "hal_delay_ms ms w = Some (emit (Delay_ms ms) w)"

definition iic_delay :: "IIC_Handle \<Rightarrow> hal_world \<Rightarrow> hal_world option" where
  "iic_delay h w =
     (if delay_us (hal_ops h) then
        (if speed_khz h = 0 then None
         else (let delay = 500 div speed_khz h
               in Some (emit (Delay_us (if delay > 0 then delay else 1)) w)))
      else Some w)"

definition iic_init ::
  "IIC_Handle option \<Rightarrow> IIC_HAL_Ops option \<Rightarrow> hal_world \<Rightarrow> (IIC_Handle option \<times> hal_world) option"
where
  "iic_init handle ops w =
     (case (handle, ops) of
        (Some _, Some hops) \<Rightarrow> do {
          let h = \<lparr>hal_ops = hops, speed_khz = 100, timeout_ms = 1000, bus_busy = 0\<rparr>;
          w \<leftarrow> (if sda_mode (hal_ops h) then hal_sda_mode h 1 w else Some w);
          w \<leftarrow> hal_set_sda 1 w;
          w \<leftarrow> hal_set_scl 1 w;
          Some (Some h, w)
        }
      | _ \<Rightarrow> Some (handle, w))"

definition iic_set_speed :: "IIC_Handle option \<Rightarrow> u32 \<Rightarrow> IIC_Handle option" where
  "iic_set_speed handle speed =
     (case handle of Some h \<Rightarrow> Some (h\<lparr>speed_khz := speed\<rparr>) | None \<Rightarrow> None)"

definition iic_set_timeout :: "IIC_Handle option \<Rightarrow> u16 \<Rightarrow> IIC_Handle option" where
  "iic_set_timeout handle t =
     (case handle of Some h \<Rightarrow> Some (h\<lparr>timeout_ms := t\<rparr>) | None \<Rightarrow> None)"

definition iic_start ::
  "IIC_Handle option \<Rightarrow> hal_world \<Rightarrow> (IIC_Result \<times> IIC_Handle option \<times> hal_world) option"
where
  "iic_start handle w =
     (case handle of
        None \<Rightarrow> Some (IIC_ERR_INVALID_PARAM, None, w)
      | Some h \<Rightarrow> do {
          w \<leftarrow> hal_sda_mode h 1 w;
          w \<leftarrow> hal_set_sda 1 w;
          w \<leftarrow> hal_set_scl 1 w;
          w \<leftarrow> iic_delay h w;
          w \<leftarrow> hal_set_sda 0 w;
          w \<leftarrow> iic_delay h w;
          w \<leftarrow> hal_set_scl 0 w;
          Some (IIC_OK, Some (h\<lparr>bus_busy := 1\<rparr>), w)
        })"

definition iic_stop ::
  "IIC_Handle option \<Rightarrow> hal_world \<Rightarrow> (IIC_Result \<times> IIC_Handle option \<times> hal_world) option"
where
  "iic_stop handle w =
     (case handle of
        None \<Rightarrow> Some (IIC_ERR_INVALID_PARAM, None, w)
      | Some h \<Rightarrow> do {
          w \<leftarrow> hal_sda_mode h 1 w;
          w \<leftarrow> hal_set_scl 0 w;
          w \<leftarrow> hal_set_sda 0 w;
          w \<leftarrow> iic_delay h w;
          w \<leftarrow> hal_set_scl 1 w;
          w \<leftarrow> iic_delay h w;
          w \<leftarrow> hal_set_sda 1 w;
          w \<leftarrow> iic_delay h w;
          Some (IIC_OK, Some (h\<lparr>bus_busy := 0\<rparr>), w)
        })"

function iic_write_byte_loop ::
  "IIC_Handle \<Rightarrow> nat \<Rightarrow> u8 \<Rightarrow> hal_world \<Rightarrow> hal_world option"
where
  "iic_write_byte_loop h i data w =
     (if i < 8 then do {
        w \<leftarrow> hal_set_sda (if data AND 0x80 \<noteq> 0 then 1 else 0) w;
        let data = push_bit 1 data;
        w \<leftarrow> iic_delay h w;
        w \<leftarrow> hal_set_scl 1 w;
        w \<leftarrow> iic_delay h w;
        w \<leftarrow> hal_set_scl 0 w;
        iic_write_byte_loop h (i + 1) data w
      } else Some w)"
  by pat_completeness auto
termination
  by (relation "measure (\<lambda>(h, i, data, w). 8 - i)") auto

declare iic_write_byte_loop.simps [simp del]

definition iic_write_byte ::
  "IIC_Handle option \<Rightarrow> u8 \<Rightarrow> hal_world \<Rightarrow> (IIC_Result \<times> hal_world) option"
where
  "iic_write_byte handle data w =
     (case handle of
        None \<Rightarrow> Some (IIC_ERR_INVALID_PARAM, w)
      | Some h \<Rightarrow> do {
          w \<leftarrow> hal_sda_mode h 1 w;
          w \<leftarrow> hal_set_scl 0 w;
          w \<leftarrow> iic_write_byte_loop h 0 data w;
          w \<leftarrow> hal_set_sda 1 w;
          w \<leftarrow> hal_sda_mode h 0 w;
          w \<leftarrow> iic_delay h w;
          w \<leftarrow> hal_set_scl 1 w;
          w \<leftarrow> iic_delay h w;
          (ack, w) \<leftarrow> hal_read_sda w;
          w \<leftarrow> hal_set_scl 0 w;
          Some (if ack = 0 then IIC_OK else IIC_ERR_NACK, w)
        })"

function iic_read_byte_loop ::
  "IIC_Handle \<Rightarrow> nat \<Rightarrow> u8 \<Rightarrow> hal_world \<Rightarrow> (u8 \<times> hal_world) option"
where
  "iic_read_byte_loop h i receive w =
     (if i < 8 then do {
        w \<leftarrow> hal_set_scl 0 w;
        w \<leftarrow> iic_delay h w;
        w \<leftarrow> hal_set_scl 1 w;
        let receive = push_bit 1 receive;
        (level, w) \<leftarrow> hal_read_sda w;
        let receive = (if level \<noteq> 0 then receive OR 0x01 else receive);
        w \<leftarrow> iic_delay h w;
        iic_read_byte_loop h (i + 1) receive w
      } else Some (receive, w))"
  by pat_completeness auto
termination
  by (relation "measure (\<lambda>(h, i, receive, w). 8 - i)") auto

declare iic_read_byte_loop.simps [simp del]

definition iic_read_byte ::
  "IIC_Handle option \<Rightarrow> bool \<Rightarrow> u8 \<Rightarrow> hal_world \<Rightarrow> (IIC_Result \<times> u8 option \<times> hal_world) option"
where
  "iic_read_byte handle data_ptr ack w =
     (case handle of
        None \<Rightarrow> Some (IIC_ERR_INVALID_PARAM, None, w)
      | Some h \<Rightarrow>
          if \<not> data_ptr then Some (IIC_ERR_INVALID_PARAM, None, w)
          else do {
            w \<leftarrow> hal_sda_mode h 0 w;
            (receive, w) \<leftarrow> iic_read_byte_loop h 0 0 w;
            w \<leftarrow> hal_set_scl 0 w;
            w \<leftarrow> hal_sda_mode h 1 w;
            w \<leftarrow> hal_set_sda (if ack \<noteq> 0 then 0 else 1) w;
            w \<leftarrow> iic_delay h w;
            w \<leftarrow> hal_set_scl 1 w;
            w \<leftarrow> iic_delay h w;
            w \<leftarrow> hal_set_scl 0 w;
            Some (IIC_OK, Some receive, w)
          })"


function iic_write_loop ::
  "IIC_Handle option \<Rightarrow> u8 list \<Rightarrow> nat \<Rightarrow> nat \<Rightarrow> hal_world
     \<Rightarrow> (IIC_Result \<times> IIC_Handle option \<times> hal_world) option"
where
  "iic_write_loop handle data len i w =
     (if i < len then
        (if i < length data then do {
           (result, w) \<leftarrow> iic_write_byte handle (data ! i) w;
           if result \<noteq> IIC_OK then do {
             (_, handle, w) \<leftarrow> iic_stop handle w;
             Some (result, handle, w)
           } else iic_write_loop handle data len (i + 1) w
         } else None)
      else Some (IIC_OK, handle, w))"
  by pat_completeness auto
termination
  by (relation "measure (\<lambda>(handle, data, len, i, w). len - i)") auto

declare iic_write_loop.simps [simp del]

definition iic_write ::
  "IIC_Handle option \<Rightarrow> u8 \<Rightarrow> u8 list option \<Rightarrow> u16 \<Rightarrow> hal_world
     \<Rightarrow> (IIC_Result \<times> IIC_Handle option \<times> hal_world) option"
where
  "iic_write handle addr data len w =
     (case (handle, data) of
        (Some _, Some buf) \<Rightarrow>
          if len = 0 then Some (IIC_ERR_INVALID_PARAM, handle, w)
          else do {
            (result, handle, w) \<leftarrow> iic_start handle w;
            if result \<noteq> IIC_OK then Some (result, handle, w)
            else do {
              (result, w) \<leftarrow> iic_write_byte handle (push_bit 1 addr) w;
              if result \<noteq> IIC_OK then do {
                (_, handle, w) \<leftarrow> iic_stop handle w;
                Some (result, handle, w)
              } else do {
                (result, handle, w) \<leftarrow> iic_write_loop handle buf (unat len) 0 w;
                if result \<noteq> IIC_OK then Some (result, handle, w)
                else do {
                  (_, handle, w) \<leftarrow> iic_stop handle w;
                  Some (IIC_OK, handle, w)
                }
              }
            }
          }
      | _ \<Rightarrow> Some (IIC_ERR_INVALID_PARAM, handle, w))"

function iic_read_loop ::
  "IIC_Handle option \<Rightarrow> u8 list \<Rightarrow> nat \<Rightarrow> nat \<Rightarrow> hal_world
     \<Rightarrow> (IIC_Result \<times> IIC_Handle option \<times> u8 list \<times> hal_world) option"
where
  "iic_read_loop handle data len i w =
     (if i < len then do {
        (result, v, w) \<leftarrow> iic_read_byte handle True (if i < len - 1 then 1 else 0) w;
        data \<leftarrow> (case v of
                  None \<Rightarrow> Some data
                | Some b \<Rightarrow> if i < length data then Some (data[i := b]) else None);
        if result \<noteq> IIC_OK then do {
          (_, handle, w) \<leftarrow> iic_stop handle w;
          Some (result, handle, data, w)
        } else iic_read_loop handle data len (i + 1) w
      } else Some (IIC_OK, handle, data, w))"
  by pat_completeness auto
termination
  by (relation "measure (\<lambda>(handle, data, len, i, w). len - i)") auto

declare iic_read_loop.simps [simp del]

definition iic_read ::
  "IIC_Handle option \<Rightarrow> u8 \<Rightarrow> u8 list option \<Rightarrow> u16 \<Rightarrow> hal_world
     \<Rightarrow> (IIC_Result \<times> IIC_Handle option \<times> u8 list option \<times> hal_world) option"
where
  "iic_read handle addr data len w =
     (case (handle, data) of
        (Some _, Some buf) \<Rightarrow>
          if len = 0 then Some (IIC_ERR_INVALID_PARAM, handle, data, w)
          else do {
            (result, handle, w) \<leftarrow> iic_start handle w;
            if result \<noteq> IIC_OK then Some (result, handle, data, w)
            else do {
              (result, w) \<leftarrow> iic_write_byte handle (push_bit 1 addr OR 0x01) w;
              if result \<noteq> IIC_OK then do {
                (_, handle, w) \<leftarrow> iic_stop handle w;
                Some (result, handle, data, w)
              } else do {
                (result, handle, buf, w) \<leftarrow> iic_read_loop handle buf (unat len) 0 w;
                if result \<noteq> IIC_OK then Some (result, handle, Some buf, w)
                else do {
                  (_, handle, w) \<leftarrow> iic_stop handle w;
                  Some (IIC_OK, handle, Some buf, w)
                }
              }
            }
          }
      | _ \<Rightarrow> Some (IIC_ERR_INVALID_PARAM, handle, data, w))"

section \<open>Binary32 arithmetic\<close>

type_synonym f32 = rat

definition pow2 :: "int \<Rightarrow> rat" where
  "pow2 e = (if 0 \<le> e then 2 ^ nat e else 1 / 2 ^ nat (- e))"

definition ilog2 :: "rat \<Rightarrow> int" where
  "ilog2 x =
     (let (a, b) = quotient_of \<bar>x\<bar>; d = bitlen a - bitlen b
      in if pow2 d \<le> \<bar>x\<bar> then d else d - 1)"

definition rne :: "rat \<Rightarrow> int" where
  "rne x =
     (let f = \<lfloor>x\<rfloor>; d = x - of_int f
      in if d < 1 / 2 then f
         else if 1 / 2 < d then f + 1
         else if even f then f else f + 1)"

definition f32_round :: "rat \<Rightarrow> f32" where
  "f32_round x =
     (if x = 0 then 0
      else (let u = pow2 (ilog2 x - 23) in of_int (rne (x / u)) * u))"

definition f32_of_u32 :: "u32 \<Rightarrow> f32" where
  "f32_of_u32 n = f32_round (of_nat (unat n))"

definition f32_mul :: "f32 \<Rightarrow> f32 \<Rightarrow> f32" where
  "f32_mul a b = f32_round (a * b)"

definition f32_div :: "f32 \<Rightarrow> f32 \<Rightarrow> f32" where
  "f32_div a b = f32_round (a / b)"

definition f32_sub :: "f32 \<Rightarrow> f32 \<Rightarrow> f32" where
  "f32_sub a b = f32_round (a - b)"

section \<open>Protocol driver (aht21.c)\<close>

definition AHT21_ADDR :: u8 where "AHT21_ADDR = 0x38"
definition AHT21_CMD_INIT :: u8 where "AHT21_CMD_INIT = 0xBE"
definition AHT21_CMD_TRIGGER :: u8 where "AHT21_CMD_TRIGGER = 0xAC"
definition AHT21_CMD_SOFT_RESET :: u8 where "AHT21_CMD_SOFT_RESET = 0xBA"
definition AHT21_STATUS_BUSY :: u8 where "AHT21_STATUS_BUSY = 0x80"
definition AHT21_STATUS_CALIBRATED :: u8 where "AHT21_STATUS_CALIBRATED = 0x08"

datatype AHT21_State =
  AHT21_STATE_IDLE | AHT21_STATE_INIT | AHT21_STATE_WAIT_MEASURE
  | AHT21_STATE_READY | AHT21_STATE_ERROR

datatype AHT21_Result =
  AHT21_OK | AHT21_ERR_NOT_INIT | AHT21_ERR_BUSY | AHT21_ERR_TIMEOUT
  | AHT21_ERR_IIC | AHT21_ERR_INVALID_PARAM | AHT21_ERR_CRC

record AHT21_Handle =
  iic :: "IIC_Handle option"
  state :: AHT21_State
  measure_ticks :: u32
  raw_data :: "u8 list"
  temperature :: f32
  humidity :: f32
  measure_interval :: u16

definition aht21_check_status ::
  "AHT21_Handle \<Rightarrow> u8 \<Rightarrow> hal_world \<Rightarrow> (AHT21_Result \<times> u8 \<times> AHT21_Handle \<times> hal_world) option"
where
  "aht21_check_status h status w = do {
     (result, i, buf, w) \<leftarrow> iic_read (iic h) AHT21_ADDR (Some [status]) 1 w;
     let h = h\<lparr>iic := i\<rparr>;
     let status = (case buf of Some [b] \<Rightarrow> b | _ \<Rightarrow> status);
     if result \<noteq> IIC_OK then Some (AHT21_ERR_IIC, status, h, w)
     else Some (AHT21_OK, status, h, w)
   }"

definition aht21_parse_data :: "AHT21_Handle \<Rightarrow> AHT21_Handle" where
  "aht21_parse_data h =
     (let humidity_raw =
            push_bit 12 (ucast (raw_data h ! 1) :: u32)
            OR push_bit 4 (ucast (raw_data h ! 2) :: u32)
            OR drop_bit 4 (ucast (raw_data h ! 3) :: u32);
          temperature_raw =
            push_bit 16 ((ucast (raw_data h ! 3) :: u32) AND 0x0F)
            OR push_bit 8 (ucast (raw_data h ! 4) :: u32)
            OR (ucast (raw_data h ! 5) :: u32)
      in h\<lparr>humidity := f32_div (f32_mul (f32_of_u32 humidity_raw) 100) 1048576,
           temperature :=
             f32_sub (f32_div (f32_mul (f32_of_u32 temperature_raw) 200) 1048576) 50\<rparr>)"

definition aht21_init ::
  "AHT21_Handle option \<Rightarrow> IIC_Handle option \<Rightarrow> hal_world
     \<Rightarrow> (AHT21_Result \<times> AHT21_Handle option \<times> hal_world) option"
where
  "aht21_init handle iic_p w =
     (case (handle, iic_p) of
        (Some _, Some bus) \<Rightarrow> do {
          let h = \<lparr>iic = iic_p, state = AHT21_STATE_INIT, measure_ticks = 0,
                   raw_data = replicate 7 0, temperature = 0, humidity = 0,
                   measure_interval = 100\<rparr>;
          w \<leftarrow> (if delay_ms (hal_ops bus) then hal_delay_ms 40 w else Some w);
          (r, i, w) \<leftarrow> iic_write (iic h) AHT21_ADDR (Some [AHT21_CMD_INIT, 0x08, 0x00]) 3 w;
          let h = h\<lparr>iic := i\<rparr>;
          if r \<noteq> IIC_OK then Some (AHT21_ERR_IIC, Some (h\<lparr>state := AHT21_STATE_ERROR\<rparr>), w)
          else do {
            w \<leftarrow> (if delay_ms (hal_ops bus) then hal_delay_ms 10 w else Some w);
            (r, status, h, w) \<leftarrow> aht21_check_status h 0 w;
            if r \<noteq> AHT21_OK then
              Some (AHT21_ERR_IIC, Some (h\<lparr>state := AHT21_STATE_ERROR\<rparr>), w)
            else if status AND AHT21_STATUS_CALIBRATED = 0 then
              Some (AHT21_ERR_NOT_INIT, Some (h\<lparr>state := AHT21_STATE_ERROR\<rparr>), w)
            else Some (AHT21_OK, Some (h\<lparr>state := AHT21_STATE_IDLE\<rparr>), w)
          }
        }
      | _ \<Rightarrow> Some (AHT21_ERR_INVALID_PARAM, handle, w))"

definition aht21_soft_reset ::
  "AHT21_Handle option \<Rightarrow> hal_world \<Rightarrow> (AHT21_Result \<times> AHT21_Handle option \<times> hal_world) option"
where
  "aht21_soft_reset handle w =
     (case handle of
        None \<Rightarrow> Some (AHT21_ERR_INVALID_PARAM, None, w)
      | Some h \<Rightarrow> do {
          (r, i, w) \<leftarrow> iic_write (iic h) AHT21_ADDR (Some [AHT21_CMD_SOFT_RESET]) 1 w;
          let h = h\<lparr>iic := i\<rparr>;
          if r \<noteq> IIC_OK then Some (AHT21_ERR_IIC, Some h, w)
          else do {
            bus \<leftarrow> iic h;
            w \<leftarrow> (if delay_ms (hal_ops bus) then hal_delay_ms 20 w else Some w);
            Some (AHT21_OK, Some (h\<lparr>state := AHT21_STATE_IDLE\<rparr>), w)
          }
        })"

definition aht21_trigger_measure ::
  "AHT21_Handle option \<Rightarrow> hal_world \<Rightarrow> (AHT21_Result \<times> AHT21_Handle option \<times> hal_world) option"
where
  "aht21_trigger_measure handle w =
     (case handle of
        None \<Rightarrow> Some (AHT21_ERR_INVALID_PARAM, None, w)
      | Some h \<Rightarrow>
          if state h = AHT21_STATE_WAIT_MEASURE then Some (AHT21_ERR_BUSY, Some h, w)
          else do {
            (r, i, w) \<leftarrow> iic_write (iic h) AHT21_ADDR (Some [AHT21_CMD_TRIGGER, 0x33, 0x00]) 3 w;
            let h = h\<lparr>iic := i\<rparr>;
            if r \<noteq> IIC_OK then Some (AHT21_ERR_IIC, Some h, w)
            else Some (AHT21_OK, Some (h\<lparr>state := AHT21_STATE_WAIT_MEASURE, measure_ticks := 0\<rparr>), w)
          })"

definition aht21_read_data ::
  "AHT21_Handle option \<Rightarrow> hal_world \<Rightarrow> (AHT21_Result \<times> AHT21_Handle option \<times> hal_world) option"
where
  "aht21_read_data handle w =
     (case handle of
        None \<Rightarrow> Some (AHT21_ERR_INVALID_PARAM, None, w)
      | Some h \<Rightarrow> do {
          (r, status, h, w) \<leftarrow> aht21_check_status h 0 w;
          if r \<noteq> AHT21_OK then Some (AHT21_ERR_IIC, Some h, w)
          else if status AND AHT21_STATUS_BUSY \<noteq> 0 then Some (AHT21_ERR_BUSY, Some h, w)
          else do {
            (r, i, buf, w) \<leftarrow> iic_read (iic h) AHT21_ADDR (Some (raw_data h)) 7 w;
            let h = h\<lparr>iic := i, raw_data := (case buf of Some d \<Rightarrow> d | None \<Rightarrow> raw_data h)\<rparr>;
            if r \<noteq> IIC_OK then Some (AHT21_ERR_IIC, Some h, w)
            else Some (AHT21_OK, Some ((aht21_parse_data h)\<lparr>state := AHT21_STATE_READY\<rparr>), w)
          }
        })"

definition aht21_get_temperature ::
  "AHT21_Handle option \<Rightarrow> bool \<Rightarrow> AHT21_Result \<times> f32 option"
where
  "aht21_get_temperature handle temp =
     (case handle of
        None \<Rightarrow> (AHT21_ERR_INVALID_PARAM, None)
      | Some h \<Rightarrow>
          if \<not> temp then (AHT21_ERR_INVALID_PARAM, None)
          else if state h \<noteq> AHT21_STATE_READY then (AHT21_ERR_NOT_INIT, None)
          else (AHT21_OK, Some (temperature h)))"

definition aht21_get_humidity ::
  "AHT21_Handle option \<Rightarrow> bool \<Rightarrow> AHT21_Result \<times> f32 option"
where
  "aht21_get_humidity handle humi =
     (case handle of
        None \<Rightarrow> (AHT21_ERR_INVALID_PARAM, None)
      | Some h \<Rightarrow>
          if \<not> humi then (AHT21_ERR_INVALID_PARAM, None)
          else if state h \<noteq> AHT21_STATE_READY then (AHT21_ERR_NOT_INIT, None)
          else (AHT21_OK, Some (humidity h)))"

definition aht21_ticks ::
  "AHT21_Handle option \<Rightarrow> hal_world \<Rightarrow> (AHT21_Handle option \<times> hal_world) option"
where
  "aht21_ticks handle w =
     (case handle of
        None \<Rightarrow> Some (None, w)
      | Some h \<Rightarrow>
          (case state h of
             AHT21_STATE_IDLE \<Rightarrow> do {
               (_, handle, w) \<leftarrow> aht21_trigger_measure (Some h) w;
               Some (handle, w)
             }
           | AHT21_STATE_WAIT_MEASURE \<Rightarrow> do {
               let h = h\<lparr>measure_ticks := measure_ticks h + 1\<rparr>;
               if 80 div 5 \<le> measure_ticks h then do {
                 (r, handle, w) \<leftarrow> aht21_read_data (Some h) w;
                 if r = AHT21_OK
                 then Some (map_option (\<lambda>h. h\<lparr>state := AHT21_STATE_READY\<rparr>) handle, w)
                 else Some (handle, w)
               } else Some (Some h, w)
             }
           | AHT21_STATE_READY \<Rightarrow> do {
               let h = h\<lparr>measure_ticks := measure_ticks h + 1\<rparr>;
               if unat (measure_interval h) div 5 \<le> unat (measure_ticks h)
               then Some (Some (h\<lparr>state := AHT21_STATE_IDLE, measure_ticks := 0\<rparr>), w)
               else Some (Some h, w)
             }
           | AHT21_STATE_ERROR \<Rightarrow> do {
               (_, handle, w) \<leftarrow> aht21_soft_reset (Some h) w;
               Some (handle, w)
             }
           | AHT21_STATE_INIT \<Rightarrow> Some (Some (h\<lparr>state := AHT21_STATE_IDLE\<rparr>), w)))"

definition aht21_read_blocking ::
  "AHT21_Handle option \<Rightarrow> bool \<Rightarrow> bool \<Rightarrow> hal_world
     \<Rightarrow> (AHT21_Result \<times> (f32 \<times> f32) option \<times> AHT21_Handle option \<times> hal_world) option"
where
  "aht21_read_blocking handle temp humi w =
     (case handle of
        None \<Rightarrow> Some (AHT21_ERR_INVALID_PARAM, None, None, w)
      | Some h \<Rightarrow>
          if \<not> temp \<or> \<not> humi then Some (AHT21_ERR_INVALID_PARAM, None, Some h, w)
          else do {
            (result, handle, w) \<leftarrow> aht21_trigger_measure (Some h) w;
            if result \<noteq> AHT21_OK then Some (result, None, handle, w)
            else do {
              h \<leftarrow> handle;
              bus \<leftarrow> iic h;
              w \<leftarrow> (if delay_ms (hal_ops bus) then hal_delay_ms 80 w else Some w);
              (result, handle, w) \<leftarrow> aht21_read_data (Some h) w;
              if result \<noteq> AHT21_OK then Some (result, None, handle, w)
              else do {
                h \<leftarrow> handle;
                Some (AHT21_OK, Some (temperature h, humidity h), handle, w)
              }
            }
          })"


section \<open>Sensor abstraction and scheduler (sensor.c)\<close>

datatype SensorType =
  SENSOR_TYPE_UNKNOWN | SENSOR_TYPE_AHT21 | SENSOR_TYPE_SHT30 | SENSOR_TYPE_DHT11
  | SENSOR_TYPE_DHT22

datatype SensorState =
  SENSOR_STATE_IDLE | SENSOR_STATE_MEASURING | SENSOR_STATE_READY | SENSOR_STATE_ERROR

datatype SensorResult =
  SENSOR_OK | SENSOR_ERR_INIT | SENSOR_ERR_BUSY | SENSOR_ERR_TIMEOUT | SENSOR_ERR_COMM
  | SENSOR_ERR_INVALID_PARAM | SENSOR_ERR_NOT_READY

type_synonym addr = nat

record ('d, 'p) SensorOps =
  ops_init :: "('d option \<Rightarrow> 'p \<Rightarrow> (SensorResult \<times> 'p) option) option"
  ops_reset :: "('d option \<Rightarrow> 'p \<Rightarrow> (SensorResult \<times> 'p) option) option"
  ops_trigger :: "('d option \<Rightarrow> 'p \<Rightarrow> (SensorResult \<times> 'p) option) option"
  ops_read :: "('d option \<Rightarrow> 'p \<Rightarrow> (SensorResult \<times> 'p) option) option"
  ops_get_temp :: "('d option \<Rightarrow> bool \<Rightarrow> 'p \<Rightarrow> (SensorResult \<times> f32 option \<times> 'p) option) option"
  ops_get_humi :: "('d option \<Rightarrow> bool \<Rightarrow> 'p \<Rightarrow> (SensorResult \<times> f32 option \<times> 'p) option) option"
  ops_get_state :: "('d option \<Rightarrow> 'p \<Rightarrow> (SensorState \<times> 'p) option) option"

record ('d, 'p) TempHumiSensor =
  sensor_type :: SensorType
  sensor_ops :: "('d, 'p) SensorOps option"
  driver_handle :: "'d option"
  sensor_temperature :: f32
  sensor_humidity :: f32
  sensor_state :: SensorState
  sensor_next :: "addr option"

record ('d, 'p) sensor_world =
  head_sensor :: "addr option"
  sensors :: "addr \<Rightarrow> ('d, 'p) TempHumiSensor"
  platform :: 'p

definition sensor_init ::
  "addr option \<Rightarrow> SensorType \<Rightarrow> ('d, 'p) SensorOps option \<Rightarrow> 'd option
     \<Rightarrow> ('d, 'p) sensor_world \<Rightarrow> ('d, 'p) sensor_world option"
where
  "sensor_init handle ty ops drv s =
     (case (handle, ops, drv) of
        (Some a, Some tab, Some _) \<Rightarrow> do {
          let obj = \<lparr>sensor_type = ty, sensor_ops = ops, driver_handle = drv,
                     sensor_temperature = 0, sensor_humidity = 0,
                     sensor_state = SENSOR_STATE_IDLE, sensor_next = None\<rparr>;
          let s = s\<lparr>sensors := (sensors s)(a := obj)\<rparr>;
          case ops_init tab of
            None \<Rightarrow> Some s
          | Some f \<Rightarrow> do {
              (_, p) \<leftarrow> f drv (platform s);
              Some (s\<lparr>platform := p\<rparr>)
            }
        }
      | _ \<Rightarrow> Some s)"

definition sensor_reset ::
  "addr option \<Rightarrow> ('d, 'p) sensor_world \<Rightarrow> (SensorResult \<times> ('d, 'p) sensor_world) option"
where
  "sensor_reset handle s =
     (case handle of
        None \<Rightarrow> Some (SENSOR_ERR_INVALID_PARAM, s)
      | Some a \<Rightarrow> do {
          tab \<leftarrow> sensor_ops (sensors s a);
          case ops_reset tab of
            None \<Rightarrow> Some (SENSOR_ERR_INVALID_PARAM, s)
          | Some f \<Rightarrow> do {
              (result, p) \<leftarrow> f (driver_handle (sensors s a)) (platform s);
              let s = s\<lparr>platform := p\<rparr>;
              Some (result,
                    if result = SENSOR_OK
                    then s\<lparr>sensors := (sensors s)
                            (a := (sensors s a)\<lparr>sensor_state := SENSOR_STATE_IDLE\<rparr>)\<rparr>
                    else s)
            }
        })"

definition sensor_trigger_measure ::
  "addr option \<Rightarrow> ('d, 'p) sensor_world \<Rightarrow> (SensorResult \<times> ('d, 'p) sensor_world) option"
where
  "sensor_trigger_measure handle s =
     (case handle of
        None \<Rightarrow> Some (SENSOR_ERR_INVALID_PARAM, s)
      | Some a \<Rightarrow> do {
          tab \<leftarrow> sensor_ops (sensors s a);
          case ops_trigger tab of
            None \<Rightarrow> Some (SENSOR_ERR_INVALID_PARAM, s)
          | Some f \<Rightarrow> do {
              (result, p) \<leftarrow> f (driver_handle (sensors s a)) (platform s);
              let s = s\<lparr>platform := p\<rparr>;
              Some (result,
                    if result = SENSOR_OK
                    then s\<lparr>sensors := (sensors s)
                            (a := (sensors s a)\<lparr>sensor_state := SENSOR_STATE_MEASURING\<rparr>)\<rparr>
                    else s)
            }
        })"

definition sensor_read_data ::
  "addr option \<Rightarrow> ('d, 'p) sensor_world \<Rightarrow> (SensorResult \<times> ('d, 'p) sensor_world) option"
where
  "sensor_read_data handle s =
     (case handle of
        None \<Rightarrow> Some (SENSOR_ERR_INVALID_PARAM, s)
      | Some a \<Rightarrow> do {
          tab \<leftarrow> sensor_ops (sensors s a);
          case ops_read tab of
            None \<Rightarrow> Some (SENSOR_ERR_INVALID_PARAM, s)
          | Some f \<Rightarrow> do {
              (result, p) \<leftarrow> f (driver_handle (sensors s a)) (platform s);
              let s = s\<lparr>platform := p\<rparr>;
              if result = SENSOR_OK then do {
                get_temp \<leftarrow> ops_get_temp tab;
                (_, t, p) \<leftarrow> get_temp (driver_handle (sensors s a)) True (platform s);
                let s = s\<lparr>platform := p,
                          sensors := (sensors s)
                            (a := (sensors s a)\<lparr>sensor_temperature :=
                               (case t of Some v \<Rightarrow> v
                                | None \<Rightarrow> sensor_temperature (sensors s a))\<rparr>)\<rparr>;
                get_humi \<leftarrow> ops_get_humi tab;
                (_, u, p) \<leftarrow> get_humi (driver_handle (sensors s a)) True (platform s);
                let s = s\<lparr>platform := p,
                          sensors := (sensors s)
                            (a := (sensors s a)\<lparr>sensor_humidity :=
                               (case u of Some v \<Rightarrow> v
                                | None \<Rightarrow> sensor_humidity (sensors s a))\<rparr>)\<rparr>;
                Some (result,
                      s\<lparr>sensors := (sensors s)
                           (a := (sensors s a)\<lparr>sensor_state := SENSOR_STATE_READY\<rparr>)\<rparr>)
              } else Some (result, s)
            }
        })"

definition sensor_get_temperature ::
  "addr option \<Rightarrow> bool \<Rightarrow> ('d, 'p) sensor_world \<Rightarrow> SensorResult \<times> f32 option"
where
  "sensor_get_temperature handle temp s =
     (case handle of
        None \<Rightarrow> (SENSOR_ERR_INVALID_PARAM, None)
      | Some a \<Rightarrow>
          if \<not> temp then (SENSOR_ERR_INVALID_PARAM, None)
          else if sensor_state (sensors s a) \<noteq> SENSOR_STATE_READY
          then (SENSOR_ERR_NOT_READY, None)
          else (SENSOR_OK, Some (sensor_temperature (sensors s a))))"

definition sensor_get_humidity ::
  "addr option \<Rightarrow> bool \<Rightarrow> ('d, 'p) sensor_world \<Rightarrow> SensorResult \<times> f32 option"
where
  "sensor_get_humidity handle humi s =
     (case handle of
        None \<Rightarrow> (SENSOR_ERR_INVALID_PARAM, None)
      | Some a \<Rightarrow>
          if \<not> humi then (SENSOR_ERR_INVALID_PARAM, None)
          else if sensor_state (sensors s a) \<noteq> SENSOR_STATE_READY
          then (SENSOR_ERR_NOT_READY, None)
          else (SENSOR_OK, Some (sensor_humidity (sensors s a))))"

definition sensor_get_both ::
  "addr option \<Rightarrow> bool \<Rightarrow> bool \<Rightarrow> ('d, 'p) sensor_world
     \<Rightarrow> SensorResult \<times> (f32 \<times> f32) option"
where
  "sensor_get_both handle temp humi s =
     (case handle of
        None \<Rightarrow> (SENSOR_ERR_INVALID_PARAM, None)
      | Some a \<Rightarrow>
          if \<not> temp \<or> \<not> humi then (SENSOR_ERR_INVALID_PARAM, None)
          else if sensor_state (sensors s a) \<noteq> SENSOR_STATE_READY
          then (SENSOR_ERR_NOT_READY, None)
          else (SENSOR_OK,
                Some (sensor_temperature (sensors s a), sensor_humidity (sensors s a))))"

definition sensor_get_state ::
  "addr option \<Rightarrow> ('d, 'p) sensor_world \<Rightarrow> (SensorState \<times> ('d, 'p) sensor_world) option"
where
  "sensor_get_state handle s =
     (case handle of
        None \<Rightarrow> Some (SENSOR_STATE_ERROR, s)
      | Some a \<Rightarrow> do {
          tab \<leftarrow> sensor_ops (sensors s a);
          case ops_get_state tab of
            None \<Rightarrow> Some (SENSOR_STATE_ERROR, s)
          | Some f \<Rightarrow> do {
              (st, p) \<leftarrow> f (driver_handle (sensors s a)) (platform s);
              Some (st, s\<lparr>platform := p\<rparr>)
            }
        })"

partial_function (option) sensor_start_loop ::
  "(addr \<Rightarrow> ('d, 'p) TempHumiSensor) \<Rightarrow> addr option \<Rightarrow> addr \<Rightarrow> bool option"
where
  "sensor_start_loop mem target handle =
     (case target of
        None \<Rightarrow> Some False
      | Some t \<Rightarrow>
          if t = handle then Some True
          else sensor_start_loop mem (sensor_next (mem t)) handle)"

definition sensor_start ::
  "addr option \<Rightarrow> ('d, 'p) sensor_world \<Rightarrow> (int \<times> ('d, 'p) sensor_world) option"
where
  "sensor_start handle s =
     (case handle of
        None \<Rightarrow> Some (- 2, s)
      | Some a \<Rightarrow> do {
          found \<leftarrow> sensor_start_loop (sensors s) (head_sensor s) a;
          if found then Some (- 1, s)
          else Some (0, s\<lparr>sensors := (sensors s)
                              (a := (sensors s a)\<lparr>sensor_next := head_sensor s\<rparr>),
                          head_sensor := Some a\<rparr>)
        })"

datatype link = Head_link | Next_link addr

definition load_link :: "link \<Rightarrow> ('d, 'p) sensor_world \<Rightarrow> addr option" where
  "load_link l s = (case l of Head_link \<Rightarrow> head_sensor s | Next_link a \<Rightarrow> sensor_next (sensors s a))"

definition store_link ::
  "link \<Rightarrow> addr option \<Rightarrow> ('d, 'p) sensor_world \<Rightarrow> ('d, 'p) sensor_world"
where
  "store_link l v s =
     (case l of
        Head_link \<Rightarrow> s\<lparr>head_sensor := v\<rparr>
      | Next_link a \<Rightarrow> s\<lparr>sensors := (sensors s)(a := (sensors s a)\<lparr>sensor_next := v\<rparr>)\<rparr>)"

partial_function (option) sensor_stop_loop ::
  "link \<Rightarrow> addr \<Rightarrow> ('d, 'p) sensor_world \<Rightarrow> ('d, 'p) sensor_world option"
where
  "sensor_stop_loop cur handle s =
     (case load_link cur s of
        None \<Rightarrow> Some s
      | Some entry \<Rightarrow>
          if entry = handle then do {
            let s = store_link cur (sensor_next (sensors s entry)) s;
            let s = s\<lparr>sensors := (sensors s)(entry := (sensors s entry)\<lparr>sensor_next := None\<rparr>)\<rparr>;
            Some s
          } else sensor_stop_loop (Next_link entry) handle s)"

definition sensor_stop ::
  "addr option \<Rightarrow> ('d, 'p) sensor_world \<Rightarrow> ('d, 'p) sensor_world option"
where
  "sensor_stop handle s =
     (case handle of None \<Rightarrow> Some s | Some a \<Rightarrow> sensor_stop_loop Head_link a s)"

definition sensor_handler ::
  "addr option \<Rightarrow> ('d, 'p) sensor_world \<Rightarrow> ('d, 'p) sensor_world option"
where
  "sensor_handler handle s = do {
     (st, s) \<leftarrow> sensor_get_state handle s;
     case st of
       SENSOR_STATE_IDLE \<Rightarrow> do { (_, s) \<leftarrow> sensor_trigger_measure handle s; Some s }
     | SENSOR_STATE_MEASURING \<Rightarrow> do { (_, s) \<leftarrow> sensor_read_data handle s; Some s }
     | SENSOR_STATE_READY \<Rightarrow> Some s
     | SENSOR_STATE_ERROR \<Rightarrow> do { (_, s) \<leftarrow> sensor_reset handle s; Some s }
   }"

partial_function (option) sensor_ticks_loop ::
  "addr option \<Rightarrow> ('d, 'p) sensor_world \<Rightarrow> ('d, 'p) sensor_world option"
where
  "sensor_ticks_loop target s =
     (case target of
        None \<Rightarrow> Some s
      | Some t \<Rightarrow> do {
          s \<leftarrow> sensor_handler (Some t) s;
          sensor_ticks_loop (sensor_next (sensors s t)) s
        })"

definition sensor_ticks :: "('d, 'p) sensor_world \<Rightarrow> ('d, 'p) sensor_world option" where
  "sensor_ticks s = sensor_ticks_loop (head_sensor s) s"

section \<open>Backend adapter (temp_humi_adapter.c)\<close>

record aht21_platform =
  bus_world :: hal_world
  devices :: "addr \<Rightarrow> AHT21_Handle"

definition cast_handle :: "addr option \<Rightarrow> aht21_platform \<Rightarrow> AHT21_Handle option" where
  "cast_handle handle p = map_option (devices p) handle"

definition write_back ::
  "addr option \<Rightarrow> AHT21_Handle option \<Rightarrow> hal_world \<Rightarrow> aht21_platform \<Rightarrow> aht21_platform"
where
  "write_back handle aht21 w p =
     p\<lparr>bus_world := w,
       devices := (case (handle, aht21) of
                     (Some a, Some h) \<Rightarrow> (devices p)(a := h)
                   | _ \<Rightarrow> devices p)\<rparr>"

definition aht21_adapter_init ::
  "addr option \<Rightarrow> aht21_platform \<Rightarrow> (SensorResult \<times> aht21_platform) option"
where
  "aht21_adapter_init handle p = Some (SENSOR_OK, p)"

definition aht21_adapter_reset ::
  "addr option \<Rightarrow> aht21_platform \<Rightarrow> (SensorResult \<times> aht21_platform) option"
where
  "aht21_adapter_reset handle p = do {
     (result, aht21, w) \<leftarrow> aht21_soft_reset (cast_handle handle p) (bus_world p);
     Some (if result = AHT21_OK then SENSOR_OK else SENSOR_ERR_COMM,
           write_back handle aht21 w p)
   }"

definition aht21_adapter_trigger ::
  "addr option \<Rightarrow> aht21_platform \<Rightarrow> (SensorResult \<times> aht21_platform) option"
where
  "aht21_adapter_trigger handle p = do {
     (result, aht21, w) \<leftarrow> aht21_trigger_measure (cast_handle handle p) (bus_world p);
     let p = write_back handle aht21 w p;
     if result = AHT21_OK then Some (SENSOR_OK, p)
     else if result = AHT21_ERR_BUSY then Some (SENSOR_ERR_BUSY, p)
     else Some (SENSOR_ERR_COMM, p)
   }"

definition aht21_adapter_read ::
  "addr option \<Rightarrow> aht21_platform \<Rightarrow> (SensorResult \<times> aht21_platform) option"
where
  "aht21_adapter_read handle p = do {
     (result, aht21, w) \<leftarrow> aht21_read_data (cast_handle handle p) (bus_world p);
     let p = write_back handle aht21 w p;
     if result = AHT21_OK then Some (SENSOR_OK, p)
     else if result = AHT21_ERR_BUSY then Some (SENSOR_ERR_BUSY, p)
     else Some (SENSOR_ERR_COMM, p)
   }"

definition aht21_adapter_get_temp ::
  "addr option \<Rightarrow> bool \<Rightarrow> aht21_platform \<Rightarrow> (SensorResult \<times> f32 option \<times> aht21_platform) option"
where
  "aht21_adapter_get_temp handle temp p =
     (let (result, v) = aht21_get_temperature (cast_handle handle p) temp
      in Some (if result = AHT21_OK then SENSOR_OK else SENSOR_ERR_NOT_READY, v, p))"

definition aht21_adapter_get_humi ::
  "addr option \<Rightarrow> bool \<Rightarrow> aht21_platform \<Rightarrow> (SensorResult \<times> f32 option \<times> aht21_platform) option"
where
  "aht21_adapter_get_humi handle humi p =
     (let (result, v) = aht21_get_humidity (cast_handle handle p) humi
      in Some (if result = AHT21_OK then SENSOR_OK else SENSOR_ERR_NOT_READY, v, p))"

definition aht21_adapter_get_state ::
  "addr option \<Rightarrow> aht21_platform \<Rightarrow> (SensorState \<times> aht21_platform) option"
where
  "aht21_adapter_get_state handle p = do {
     aht21 \<leftarrow> cast_handle handle p;
     Some (case state aht21 of
             AHT21_STATE_IDLE \<Rightarrow> SENSOR_STATE_IDLE
           | AHT21_STATE_WAIT_MEASURE \<Rightarrow> SENSOR_STATE_MEASURING
           | AHT21_STATE_READY \<Rightarrow> SENSOR_STATE_READY
           | AHT21_STATE_ERROR \<Rightarrow> SENSOR_STATE_ERROR
           | AHT21_STATE_INIT \<Rightarrow> SENSOR_STATE_IDLE,
           p)
   }"

definition aht21_ops :: "(addr, aht21_platform) SensorOps" where
  "aht21_ops =
     \<lparr>ops_init = Some aht21_adapter_init,
      ops_reset = Some aht21_adapter_reset,
      ops_trigger = Some aht21_adapter_trigger,
      ops_read = Some aht21_adapter_read,
      ops_get_temp = Some aht21_adapter_get_temp,
      ops_get_humi = Some aht21_adapter_get_humi,
      ops_get_state = Some aht21_adapter_get_state\<rparr>"


section \<open>Vocabulary of the statements\<close>

definition after :: "hal_event list \<Rightarrow> nat \<Rightarrow> hal_world \<Rightarrow> hal_world" where
  "after es n w = w\<lparr>trace := trace w @ es, sda_pos := sda_pos w + n\<rparr>"

definition iic_defined :: "IIC_Handle \<Rightarrow> bool" where
  "iic_defined h = (sda_mode (hal_ops h) \<and> (speed_khz h = 0 \<longrightarrow> \<not> delay_us (hal_ops h)))"

definition half_period :: "IIC_Handle \<Rightarrow> u32" where
  "half_period h = (let delay = 500 div speed_khz h in if delay > 0 then delay else 1)"

definition delay_events :: "IIC_Handle \<Rightarrow> hal_event list" where
  "delay_events h = (if delay_us (hal_ops h) then [Delay_us (half_period h)] else [])"

definition start_events :: "IIC_Handle \<Rightarrow> hal_event list" where
  "start_events h =
     [Sda_mode 1, Set_sda 1, Set_scl 1] @ delay_events h @ [Set_sda 0] @ delay_events h
     @ [Set_scl 0]"

definition stop_events :: "IIC_Handle \<Rightarrow> hal_event list" where
  "stop_events h =
     [Sda_mode 1, Set_scl 0, Set_sda 0] @ delay_events h @ [Set_scl 1] @ delay_events h
     @ [Set_sda 1] @ delay_events h"

definition tx_bit_events :: "IIC_Handle \<Rightarrow> bool \<Rightarrow> hal_event list" where
  "tx_bit_events h b =
     [Set_sda (if b then 1 else 0)] @ delay_events h @ [Set_scl 1] @ delay_events h
     @ [Set_scl 0]"

definition write_byte_events :: "IIC_Handle \<Rightarrow> u8 \<Rightarrow> hal_event list" where
  "write_byte_events h data =
     [Sda_mode 1, Set_scl 0]
     @ concat (map (\<lambda>k. tx_bit_events h (bit data (7 - k))) [0..<8])
     @ [Set_sda 1, Sda_mode 0] @ delay_events h @ [Set_scl 1] @ delay_events h
     @ [Read_sda, Set_scl 0]"

fun rx_acc :: "(nat \<Rightarrow> u8) \<Rightarrow> nat \<Rightarrow> nat \<Rightarrow> u8 \<Rightarrow> u8" where
  "rx_acc f p 0 r = r"
| "rx_acc f p (Suc n) r =
     rx_acc f (Suc p) n (if f p \<noteq> 0 then push_bit 1 r OR 0x01 else push_bit 1 r)"

definition rx_byte :: "(nat \<Rightarrow> u8) \<Rightarrow> nat \<Rightarrow> u8" where
  "rx_byte f p = rx_acc f p 8 0"

fun rx_fill :: "(nat \<Rightarrow> u8) \<Rightarrow> nat \<Rightarrow> u8 list \<Rightarrow> nat \<Rightarrow> nat \<Rightarrow> u8 list" where
  "rx_fill f p data i 0 = data"
| "rx_fill f p data i (Suc n) = rx_fill f (p + 8) (data[i := rx_byte f p]) (Suc i) n"

definition rx_bit_events :: "IIC_Handle \<Rightarrow> hal_event list" where
  "rx_bit_events h = [Set_scl 0] @ delay_events h @ [Set_scl 1, Read_sda] @ delay_events h"

definition read_byte_events :: "IIC_Handle \<Rightarrow> u8 \<Rightarrow> hal_event list" where
  "read_byte_events h ack =
     [Sda_mode 0] @ concat (replicate 8 (rx_bit_events h))
     @ [Set_scl 0, Sda_mode 1, Set_sda (if ack \<noteq> 0 then 0 else 1)] @ delay_events h
     @ [Set_scl 1] @ delay_events h @ [Set_scl 0]"

definition tx_bytes :: "u8 \<Rightarrow> u8 list \<Rightarrow> u16 \<Rightarrow> u8 list" where
  "tx_bytes addr buf len = push_bit 1 addr # take (unat len) buf"

definition rx_events :: "IIC_Handle \<Rightarrow> nat \<Rightarrow> nat \<Rightarrow> hal_event list" where
  "rx_events h i len =
     concat (map (\<lambda>j. read_byte_events h (if j < len - 1 then 1 else 0)) [i..<len])"

definition status_events :: "IIC_Handle \<Rightarrow> hal_event list" where
  "status_events b =
     start_events b @ write_byte_events b (push_bit 1 AHT21_ADDR OR 0x01)
     @ rx_events b 0 1 @ stop_events b"

definition refused_read_events :: "IIC_Handle \<Rightarrow> hal_event list" where
  "refused_read_events b =
     start_events b @ write_byte_events b (push_bit 1 AHT21_ADDR OR 0x01) @ stop_events b"

definition reply_events :: "IIC_Handle \<Rightarrow> hal_event list" where
  "reply_events b =
     start_events b @ write_byte_events b (push_bit 1 AHT21_ADDR OR 0x01)
     @ rx_events b 0 7 @ stop_events b"

definition rx_reply :: "(nat \<Rightarrow> u8) \<Rightarrow> nat \<Rightarrow> u8 list" where
  "rx_reply f p = map (\<lambda>j. rx_byte f (p + 8 * j)) [0..<7]"

definition trigger_events :: "IIC_Handle \<Rightarrow> hal_event list" where
  "trigger_events b =
     start_events b
     @ concat (map (write_byte_events b) (tx_bytes AHT21_ADDR [AHT21_CMD_TRIGGER, 0x33, 0x00] 3))
     @ stop_events b"

definition reset_events :: "IIC_Handle \<Rightarrow> hal_event list" where
  "reset_events b =
     start_events b
     @ concat (map (write_byte_events b) (tx_bytes AHT21_ADDR [AHT21_CMD_SOFT_RESET] 1))
     @ stop_events b"

definition demo_ops :: IIC_HAL_Ops where
  "demo_ops = \<lparr>delay_us = True, delay_ms = True, sda_mode = True\<rparr>"

definition demo_bus :: IIC_Handle where
  "demo_bus = \<lparr>hal_ops = demo_ops, speed_khz = 100, timeout_ms = 1000, bus_busy = 0\<rparr>"

definition demo_aht21 :: "AHT21_State \<Rightarrow> AHT21_Handle" where
  "demo_aht21 st =
     \<lparr>iic = Some demo_bus, state = st, measure_ticks = 0, raw_data = replicate 7 0,
      temperature = 0, humidity = 0, measure_interval = 100\<rparr>"

definition line_low :: "nat \<Rightarrow> u8" where
  "line_low = (\<lambda>n. 0)"

definition line_high :: "nat \<Rightarrow> u8" where
  "line_high = (\<lambda>n. 1)"

definition line_busy :: "nat \<Rightarrow> u8" where
  "line_busy = (\<lambda>n. if n = 1 then 1 else 0)"

definition demo_world :: "(nat \<Rightarrow> u8) \<Rightarrow> hal_world" where
  "demo_world f = \<lparr>trace = [], sda_in = f, sda_pos = 0\<rparr>"

fun acked_prefix :: "(nat \<Rightarrow> u8) \<Rightarrow> nat \<Rightarrow> nat \<Rightarrow> nat" where
  "acked_prefix f p 0 = 0"
| "acked_prefix f p (Suc n) = (if f p = 0 then Suc (acked_prefix f (Suc p) n) else 0)"

fun line_step :: "bool \<times> bool \<Rightarrow> hal_event \<Rightarrow> bool \<times> bool" where
  "line_step (scl, sda) (Set_scl l) = (l \<noteq> 0, sda)"
| "line_step (scl, sda) (Set_sda l) = (scl, l \<noteq> 0)"
| "line_step ls _ = ls"

fun stop_edge :: "bool \<times> bool \<Rightarrow> hal_event \<Rightarrow> bool" where
  "stop_edge (scl, sda) (Set_sda l) = (scl \<and> \<not> sda \<and> l \<noteq> 0)"
| "stop_edge _ _ = False"

fun stop_conditions :: "bool \<times> bool \<Rightarrow> hal_event list \<Rightarrow> nat" where
  "stop_conditions ls [] = 0"
| "stop_conditions ls (e # es) =
     (if stop_edge ls e then 1 else 0) + stop_conditions (line_step ls e) es"

definition lines_after :: "bool \<times> bool \<Rightarrow> hal_event list \<Rightarrow> bool \<times> bool" where
  "lines_after ls es = foldl line_step ls es"

definition bus_idle :: "bool \<times> bool" where
  "bus_idle = (True, True)"

definition polled_bus :: IIC_Handle where
  "polled_bus =
     \<lparr>hal_ops = \<lparr>delay_us = False, delay_ms = False, sda_mode = True\<rparr>,
      speed_khz = 0, timeout_ms = 1000, bus_busy = 0\<rparr>"

definition settle_events :: "IIC_Handle \<Rightarrow> u32 \<Rightarrow> hal_event list" where
  "settle_events b ms = (if delay_ms (hal_ops b) then [Delay_ms ms] else [])"

definition humidity_raw :: "u8 list \<Rightarrow> u32" where
  "humidity_raw d =
     push_bit 12 (ucast (d ! 1)) OR push_bit 4 (ucast (d ! 2)) OR drop_bit 4 (ucast (d ! 3))"

definition temperature_raw :: "u8 list \<Rightarrow> u32" where
  "temperature_raw d =
     push_bit 16 (ucast (d ! 3) AND 0x0F) OR push_bit 8 (ucast (d ! 4)) OR ucast (d ! 5)"

definition packed40 :: "u8 list \<Rightarrow> nat" where
  "packed40 d =
     unat (d ! 1) * 2 ^ 32 + unat (d ! 2) * 2 ^ 24 + unat (d ! 3) * 2 ^ 16
     + unat (d ! 4) * 2 ^ 8 + unat (d ! 5)"

definition line_reply :: "nat \<Rightarrow> u8" where
  "line_reply = (\<lambda>n. if n = 18 \<or> n = 39 then 1 else 0)"

definition adapter_result :: "AHT21_Result \<Rightarrow> SensorResult" where
  "adapter_result r =
     (if r = AHT21_OK then SENSOR_OK
      else if r = AHT21_ERR_BUSY then SENSOR_ERR_BUSY
      else SENSOR_ERR_COMM)"

definition adapter_reset_result :: "AHT21_Result \<Rightarrow> SensorResult" where
  "adapter_reset_result r = (if r = AHT21_OK then SENSOR_OK else SENSOR_ERR_COMM)"

definition adapter_getter_result :: "AHT21_Result \<Rightarrow> SensorResult" where
  "adapter_getter_result r = (if r = AHT21_OK then SENSOR_OK else SENSOR_ERR_NOT_READY)"

definition adapter_state :: "AHT21_State \<Rightarrow> SensorState" where
  "adapter_state st =
     (case st of
        AHT21_STATE_IDLE \<Rightarrow> SENSOR_STATE_IDLE
      | AHT21_STATE_WAIT_MEASURE \<Rightarrow> SENSOR_STATE_MEASURING
      | AHT21_STATE_READY \<Rightarrow> SENSOR_STATE_READY
      | AHT21_STATE_ERROR \<Rightarrow> SENSOR_STATE_ERROR
      | AHT21_STATE_INIT \<Rightarrow> SENSOR_STATE_IDLE)"

definition demo_platform :: "AHT21_State \<Rightarrow> (nat \<Rightarrow> u8) \<Rightarrow> aht21_platform" where
  "demo_platform st f = \<lparr>bus_world = demo_world f, devices = (\<lambda>a. demo_aht21 st)\<rparr>"

definition failing_ops :: "(nat, nat) SensorOps" where
  "failing_ops =
     \<lparr>ops_init = Some (\<lambda>d calls. Some (SENSOR_ERR_INIT, Suc calls)),
      ops_reset = None, ops_trigger = None, ops_read = None,
      ops_get_temp = None, ops_get_humi = None, ops_get_state = None\<rparr>"

definition blank_sensor :: "('d, 'p) TempHumiSensor" where
  "blank_sensor =
     \<lparr>sensor_type = SENSOR_TYPE_UNKNOWN, sensor_ops = None, driver_handle = None,
      sensor_temperature = 0, sensor_humidity = 0, sensor_state = SENSOR_STATE_IDLE,
      sensor_next = None\<rparr>"

definition empty_scheduler :: "'p \<Rightarrow> ('d, 'p) sensor_world" where
  "empty_scheduler p = \<lparr>head_sensor = None, sensors = (\<lambda>a. blank_sensor), platform = p\<rparr>"

fun chain :: "(addr \<Rightarrow> ('d, 'p) TempHumiSensor) \<Rightarrow> addr option \<Rightarrow> addr list \<Rightarrow> bool" where
  "chain mem p [] = (p = None)"
| "chain mem p (x # xs) = (p = Some x \<and> chain mem (sensor_next (mem x)) xs)"

definition registry :: "('d, 'p) sensor_world \<Rightarrow> addr list \<Rightarrow> bool" where
  "registry s xs = chain (sensors s) (head_sensor s) xs"

definition unlink :: "link \<Rightarrow> addr \<Rightarrow> ('d, 'p) sensor_world \<Rightarrow> ('d, 'p) sensor_world" where
  "unlink l a s =
     (let s1 = store_link l (sensor_next (sensors s a)) s
      in s1\<lparr>sensors := (sensors s1)(a := (sensors s1 a)\<lparr>sensor_next := None\<rparr>)\<rparr>)"

fun run_handlers ::
  "addr list \<Rightarrow> ('d, 'p) sensor_world \<Rightarrow> ('d, 'p) sensor_world option"
where
  "run_handlers [] s = Some s"
| "run_handlers (x # xs) s = sensor_handler (Some x) s \<bind> run_handlers xs"

fun delays_of :: "hal_event list \<Rightarrow> u32 list" where
  "delays_of [] = []"
| "delays_of (Delay_us d # es) = d # delays_of es"
| "delays_of (_ # es) = delays_of es"

definition bare_bus :: IIC_Handle where
  "bare_bus =
     \<lparr>hal_ops = \<lparr>delay_us = False, delay_ms = False, sda_mode = False\<rparr>,
      speed_khz = 100, timeout_ms = 1000, bus_busy = 0\<rparr>"

definition trigger_outcome :: "hal_world \<Rightarrow> AHT21_Result" where
  "trigger_outcome w =
     (if acked_prefix (sda_in w) (sda_pos w) 4 < 4 then AHT21_ERR_IIC else AHT21_OK)"

definition reset_outcome :: "hal_world \<Rightarrow> AHT21_Result" where
  "reset_outcome w =
     (if acked_prefix (sda_in w) (sda_pos w) 2 < 2 then AHT21_ERR_IIC else AHT21_OK)"

definition read_outcome :: "hal_world \<Rightarrow> AHT21_Result" where
  "read_outcome w =
     (if sda_in w (sda_pos w) \<noteq> 0 then AHT21_ERR_IIC
      else if rx_byte (sda_in w) (Suc (sda_pos w)) AND AHT21_STATUS_BUSY \<noteq> 0
      then AHT21_ERR_BUSY
      else if sda_in w (sda_pos w + 9) \<noteq> 0 then AHT21_ERR_IIC
      else AHT21_OK)"

definition init_outcome :: "hal_world \<Rightarrow> AHT21_Result" where
  "init_outcome w =
     (if acked_prefix (sda_in w) (sda_pos w) 4 < 4 then AHT21_ERR_IIC
      else if sda_in w (sda_pos w + 4) \<noteq> 0 then AHT21_ERR_IIC
      else if rx_byte (sda_in w) (sda_pos w + 5) AND AHT21_STATUS_CALIBRATED = 0
      then AHT21_ERR_NOT_INIT
      else AHT21_OK)"

definition line_calibrated :: "nat \<Rightarrow> u8" where
  "line_calibrated = (\<lambda>n. if n = 9 then 1 else 0)"


datatype handler_action = Auto_trigger | Attempt_read | No_op | Attempt_reset

fun action_for :: "SensorState \<Rightarrow> handler_action" where
  "action_for SENSOR_STATE_IDLE = Auto_trigger"
| "action_for SENSOR_STATE_MEASURING = Attempt_read"
| "action_for SENSOR_STATE_READY = No_op"
| "action_for SENSOR_STATE_ERROR = Attempt_reset"

fun drive ::
  "handler_action \<Rightarrow> addr \<Rightarrow> ('d, 'p) sensor_world \<Rightarrow> ('d, 'p) sensor_world option"
where
  "drive Auto_trigger a s = map_option snd (sensor_trigger_measure (Some a) s)"
| "drive Attempt_read a s = map_option snd (sensor_read_data (Some a) s)"
| "drive No_op a s = Some s"
| "drive Attempt_reset a s = map_option snd (sensor_reset (Some a) s)"

definition same_links :: "('d, 'p) sensor_world \<Rightarrow> ('d, 'p) sensor_world \<Rightarrow> bool" where
  "same_links s s' \<longleftrightarrow>
     head_sensor s' = head_sensor s \<and> (\<forall>b. sensor_next (sensors s' b) = sensor_next (sensors s b))"

datatype backend_call =
  Call_get_state | Call_trigger | Call_read | Call_get_temp | Call_get_humi | Call_reset

definition record_call ::
  "backend_call \<Rightarrow> nat option \<Rightarrow> (nat \<times> backend_call) list
     \<Rightarrow> (nat \<times> backend_call) list option"
where
  "record_call c d calls = map_option (\<lambda>n. calls @ [(n, c)]) d"

definition reported_state :: "nat option \<Rightarrow> SensorState" where
  "reported_state d =
     (if d = Some 1 then SENSOR_STATE_IDLE
      else if d = Some 2 then SENSOR_STATE_MEASURING
      else if d = Some 3 then SENSOR_STATE_READY
      else SENSOR_STATE_ERROR)"

definition recording_ops :: "(nat, (nat \<times> backend_call) list) SensorOps" where
  "recording_ops =
     \<lparr>ops_init = None,
      ops_reset = Some (\<lambda>d calls. map_option (Pair SENSOR_OK) (record_call Call_reset d calls)),
      ops_trigger =
        Some (\<lambda>d calls. map_option (Pair SENSOR_OK) (record_call Call_trigger d calls)),
      ops_read = Some (\<lambda>d calls. map_option (Pair SENSOR_OK) (record_call Call_read d calls)),
      ops_get_temp =
        Some (\<lambda>d temp calls.
                map_option (\<lambda>c. (SENSOR_OK, Some 25, c)) (record_call Call_get_temp d calls)),
      ops_get_humi =
        Some (\<lambda>d humi calls.
                map_option (\<lambda>c. (SENSOR_OK, Some 50, c)) (record_call Call_get_humi d calls)),
      ops_get_state =
        Some (\<lambda>d calls.
                map_option (Pair (reported_state d)) (record_call Call_get_state d calls))\<rparr>"

definition recording_sensor ::
  "nat \<Rightarrow> addr option \<Rightarrow> (nat, (nat \<times> backend_call) list) TempHumiSensor"
where
  "recording_sensor n nxt =
     \<lparr>sensor_type = SENSOR_TYPE_UNKNOWN, sensor_ops = Some recording_ops,
      driver_handle = Some n, sensor_temperature = 0, sensor_humidity = 0,
      sensor_state = SENSOR_STATE_IDLE, sensor_next = nxt\<rparr>"

definition recording_bench :: "(nat, (nat \<times> backend_call) list) sensor_world" where
  "recording_bench =
     \<lparr>head_sensor = None, sensors = (\<lambda>a. recording_sensor a None), platform = []\<rparr>"



section \<open>Bus engine: traces of the primitives\<close>

lemma after_after [simp]: "after es2 n2 (after es1 n1 w) = after (es1 @ es2) (n1 + n2) w"
  by (simp add: after_def add.assoc)

lemma after_nil [simp]: "after [] 0 w = w"
  by (simp add: after_def)

lemma after_fields [simp]:
  "trace (after es n w) = trace w @ es"
  "sda_pos (after es n w) = sda_pos w + n"
  "sda_in (after es n w) = sda_in w"
  by (simp_all add: after_def)

lemma hal_set_sda_after [simp]: "hal_set_sda l w = Some (after [Set_sda l] 0 w)"
  by (simp add: hal_set_sda_def emit_def after_def)

lemma hal_set_scl_after [simp]: "hal_set_scl l w = Some (after [Set_scl l] 0 w)"
  by (simp add: hal_set_scl_def emit_def after_def)

lemma hal_read_sda_after [simp]:
  "hal_read_sda w = Some (sda_in w (sda_pos w), after [Read_sda] 1 w)"
  by (simp add: hal_read_sda_def emit_def after_def)

lemma hal_delay_ms_after [simp]: "hal_delay_ms ms w = Some (after [Delay_ms ms] 0 w)"
  by (simp add: hal_delay_ms_def emit_def after_def)

lemma hal_sda_mode_after [simp]:
  "iic_defined h \<Longrightarrow> hal_sda_mode h m w = Some (after [Sda_mode m] 0 w)"
  by (simp add: hal_sda_mode_def iic_defined_def emit_def after_def)

lemma iic_delay_after [simp]:
  "iic_defined h \<Longrightarrow> iic_delay h w = Some (after (delay_events h) 0 w)"
  by (auto simp add: iic_delay_def iic_defined_def emit_def after_def delay_events_def
      half_period_def Let_def)

lemma iic_start_after:
  "iic_defined h \<Longrightarrow>
   iic_start (Some h) w = Some (IIC_OK, Some (h\<lparr>bus_busy := 1\<rparr>), after (start_events h) 0 w)"
  by (simp add: iic_start_def start_events_def)

lemma iic_stop_after:
  "iic_defined h \<Longrightarrow>
   iic_stop (Some h) w = Some (IIC_OK, Some (h\<lparr>bus_busy := 0\<rparr>), after (stop_events h) 0 w)"
  by (simp add: iic_stop_def stop_events_def)

lemma msb_test: "((data :: u8) AND 0x80 \<noteq> 0) = bit data 7"
proof -
  have "(0x80 :: u8) = 2 ^ 7" by simp
  then show ?thesis by (simp only: and_exp_eq_0_iff_not_bit) simp
qed

lemma bit_shifted: "k < 7 \<Longrightarrow> bit (push_bit 1 (data :: u8)) (7 - k) = bit data (7 - Suc k)"
  by (simp only: bit_push_bit_iff) (auto simp add: possible_bit_word Suc_diff_Suc)

lemma bit_doubled: "k < 7 \<Longrightarrow> bit ((data :: u8) * 2) (7 - k) = bit data (7 - Suc k)"
  using bit_shifted [of k data] by (simp add: push_bit_eq_mult)

lemma iic_write_byte_loop_steps:
  "iic_defined h \<Longrightarrow> i + n = 8 \<Longrightarrow>
   iic_write_byte_loop h i data w =
     Some (after (concat (map (\<lambda>k. tx_bit_events h (bit data (7 - k))) [0..<n])) 0 w)"
proof (induction n arbitrary: i data w)
  case 0
  then show ?case by (simp add: iic_write_byte_loop.simps)
next
  case (Suc n)
  have n7: "n \<le> 7" using Suc.prems by simp
  have shifted: "map (\<lambda>k. tx_bit_events h (bit (data * 2) (7 - k))) [0..<n]
          = map (\<lambda>k. tx_bit_events h (bit data (7 - Suc k))) [0..<n]"
    using n7 by (intro map_cong refl) (simp add: bit_doubled)
  have IH: "iic_write_byte_loop h (Suc i) (data * 2) w' =
       Some (after (concat (map (\<lambda>k. tx_bit_events h (bit (data * 2) (7 - k))) [0..<n])) 0 w')" for w'
    using Suc.IH [of "Suc i" "data * 2" w'] Suc.prems by simp
  have split: "[0..<Suc n] = 0 # map Suc [0..<n]"
    by (simp add: upt_conv_Cons map_Suc_upt del: upt_Suc)
  show ?case
    apply (subst iic_write_byte_loop.simps)
    using Suc.prems
    apply (simp add: msb_test IH split comp_def shifted del: upt_Suc)
    apply (simp add: tx_bit_events_def del: upt_Suc)
    done
qed

lemma iic_write_byte_after:
  "iic_defined h \<Longrightarrow>
   iic_write_byte (Some h) data w =
     Some (if sda_in w (sda_pos w) = 0 then IIC_OK else IIC_ERR_NACK,
           after (write_byte_events h data) 1 w)"
  by (simp add: iic_write_byte_def iic_write_byte_loop_steps [where n = 8] write_byte_events_def
      del: upt_Suc)

lemma busy_irrelevant [simp]:
  "iic_defined (h\<lparr>bus_busy := b\<rparr>) = iic_defined h"
  "delay_events (h\<lparr>bus_busy := b\<rparr>) = delay_events h"
  "start_events (h\<lparr>bus_busy := b\<rparr>) = start_events h"
  "stop_events (h\<lparr>bus_busy := b\<rparr>) = stop_events h"
  "write_byte_events (h\<lparr>bus_busy := b\<rparr>) = write_byte_events h"
  "read_byte_events (h\<lparr>bus_busy := b\<rparr>) = read_byte_events h"
  by (simp_all add: iic_defined_def delay_events_def half_period_def start_events_def
      stop_events_def write_byte_events_def tx_bit_events_def read_byte_events_def
      rx_bit_events_def fun_eq_iff)

lemma iic_read_byte_loop_steps:
  "iic_defined h \<Longrightarrow> i + n = 8 \<Longrightarrow>
   iic_read_byte_loop h i r w =
     Some (rx_acc (sda_in w) (sda_pos w) n r,
           after (concat (replicate n (rx_bit_events h))) n w)"
proof (induction n arbitrary: i r w)
  case 0
  then show ?case by (simp add: iic_read_byte_loop.simps)
next
  case (Suc n)
  have IH: "iic_read_byte_loop h (Suc i) r' w' =
       Some (rx_acc (sda_in w') (sda_pos w') n r',
             after (concat (replicate n (rx_bit_events h))) n w')" for r' w'
    using Suc.IH [of "Suc i" r' w'] Suc.prems by simp
  show ?case
    apply (subst iic_read_byte_loop.simps)
    using Suc.prems
    apply (simp add: IH rx_bit_events_def push_bit_eq_mult)
    done
qed

lemma iic_read_byte_after:
  "iic_defined h \<Longrightarrow>
   iic_read_byte (Some h) True ack w =
     Some (IIC_OK, Some (rx_byte (sda_in w) (sda_pos w)), after (read_byte_events h ack) 8 w)"
  by (simp add: iic_read_byte_def iic_read_byte_loop_steps [where n = 8] read_byte_events_def
      rx_byte_def)

lemma iic_write_loop_acked:
  "iic_defined h \<Longrightarrow> i + n = len \<Longrightarrow> len \<le> length data \<Longrightarrow>
   (\<forall>j<n. sda_in w (sda_pos w + j) = 0) \<Longrightarrow>
   iic_write_loop (Some h) data len i w =
     Some (IIC_OK, Some h,
           after (concat (map (write_byte_events h) (take n (drop i data)))) n w)"
proof (induction n arbitrary: i w)
  case 0
  then show ?case by (simp add: iic_write_loop.simps)
next
  case (Suc n)
  let ?w1 = "after (write_byte_events h (data ! i)) (Suc 0) w"
  have i: "i < len" "i < length data" using Suc.prems by auto
  have ack0: "sda_in w (sda_pos w) = 0" using Suc.prems(4) [rule_format, of 0] by simp
  have rest: "\<forall>j<n. sda_in ?w1 (sda_pos ?w1 + j) = 0"
    using Suc.prems(4) by (auto simp add: add.assoc)
  have IH: "iic_write_loop (Some h) data len (Suc i) ?w1 =
     Some (IIC_OK, Some h,
           after (concat (map (write_byte_events h) (take n (drop (Suc i) data)))) n ?w1)"
    using Suc.IH [of "Suc i" ?w1] Suc.prems rest by simp
  have unfold: "take (Suc n) (drop i data) = data ! i # take n (drop (Suc i) data)"
    using i by (simp add: Cons_nth_drop_Suc [symmetric])
  show ?case
    apply (subst iic_write_loop.simps)
    using i Suc.prems(1) ack0
    apply (simp add: iic_write_byte_after IH unfold)
    done
qed

lemma iic_write_loop_nack:
  "iic_defined h \<Longrightarrow> i + k < len \<Longrightarrow> len \<le> length data \<Longrightarrow>
   (\<forall>j<k. sda_in w (sda_pos w + j) = 0) \<Longrightarrow> sda_in w (sda_pos w + k) \<noteq> 0 \<Longrightarrow>
   iic_write_loop (Some h) data len i w =
     Some (IIC_ERR_NACK, Some (h\<lparr>bus_busy := 0\<rparr>),
           after (concat (map (write_byte_events h) (take (Suc k) (drop i data)))
                  @ stop_events h) (Suc k) w)"
proof (induction k arbitrary: i w)
  case 0
  have i: "i < len" "i < length data" using 0 by auto
  have unfold: "take (Suc 0) (drop i data) = [data ! i]"
    using i by (simp add: Cons_nth_drop_Suc [symmetric])
  show ?case
    apply (subst iic_write_loop.simps)
    using i 0(1,5)
    apply (simp add: iic_write_byte_after iic_stop_after unfold)
    done
next
  case (Suc k)
  let ?w1 = "after (write_byte_events h (data ! i)) (Suc 0) w"
  have i: "i < len" "i < length data" using Suc.prems by auto
  have ack0: "sda_in w (sda_pos w) = 0" using Suc.prems(4) [rule_format, of 0] by simp
  have rest: "\<forall>j<k. sda_in ?w1 (sda_pos ?w1 + j) = 0"
    using Suc.prems(4) by (auto simp add: add.assoc)
  have nack: "sda_in ?w1 (sda_pos ?w1 + k) \<noteq> 0"
    using Suc.prems(5) by (simp add: add.assoc)
  have IH: "iic_write_loop (Some h) data len (Suc i) ?w1 =
     Some (IIC_ERR_NACK, Some (h\<lparr>bus_busy := 0\<rparr>),
           after (concat (map (write_byte_events h) (take (Suc k) (drop (Suc i) data)))
                  @ stop_events h) (Suc k) ?w1)"
    using Suc.IH [of "Suc i" ?w1] Suc.prems(1,2,3) rest nack by simp
  have unfold: "take (Suc (Suc k)) (drop i data) = data ! i # take (Suc k) (drop (Suc i) data)"
    using i by (simp add: Cons_nth_drop_Suc [symmetric])
  show ?case
    apply (subst iic_write_loop.simps)
    using i Suc.prems(1) ack0
    apply (simp add: iic_write_byte_after IH unfold)
    done
qed

lemma iic_write_nack:
  assumes "iic_defined h" "len \<noteq> 0" "unat len \<le> length buf"
    and k: "k < length (tx_bytes addr buf len)"
    and acks: "\<forall>j<k. sda_in w (sda_pos w + j) = 0"
    and nack: "sda_in w (sda_pos w + k) \<noteq> 0"
  shows "iic_write (Some h) addr (Some buf) len w =
     Some (IIC_ERR_NACK, Some (h\<lparr>bus_busy := 0\<rparr>),
           after (start_events h
                  @ concat (map (write_byte_events h) (take (Suc k) (tx_bytes addr buf len)))
                  @ stop_events h) (Suc k) w)"
proof (cases k)
  case 0
  with assms show ?thesis
    by (simp add: iic_write_def iic_start_after iic_write_byte_after iic_stop_after
        tx_bytes_def)
next
  case (Suc k')
  let ?w1 = "after (start_events h @ write_byte_events h (push_bit 1 addr)) (Suc 0) w"
  have ack0: "sda_in w (sda_pos w) = 0" using acks Suc by auto
  have k': "0 + k' < unat len" using k Suc by (simp add: tx_bytes_def)
  have rest: "\<forall>j<k'. sda_in ?w1 (sda_pos ?w1 + j) = 0"
    using acks Suc by (auto simp add: add.assoc)
  have nack': "sda_in ?w1 (sda_pos ?w1 + k') \<noteq> 0"
    using nack Suc by (simp add: add.assoc)
  have loop: "iic_write_loop (Some (h\<lparr>bus_busy := 1\<rparr>)) buf (unat len) 0 ?w1 =
     Some (IIC_ERR_NACK, Some (h\<lparr>bus_busy := 0\<rparr>),
           after (concat (map (write_byte_events h) (take (Suc k') (drop 0 buf)))
                  @ stop_events h) (Suc k') ?w1)"
    using iic_write_loop_nack [of "h\<lparr>bus_busy := 1\<rparr>" 0 k' "unat len" buf ?w1]
      assms(1,3) k' rest nack' by simp
  show ?thesis
    using assms(1,2) ack0 Suc loop k'
    by (simp add: iic_write_def iic_start_after iic_write_byte_after tx_bytes_def min_def)
qed

lemma iic_write_ok:
  assumes "iic_defined h" "len \<noteq> 0" "unat len \<le> length buf"
    and acks: "\<forall>j<length (tx_bytes addr buf len). sda_in w (sda_pos w + j) = 0"
  shows "iic_write (Some h) addr (Some buf) len w =
     Some (IIC_OK, Some (h\<lparr>bus_busy := 0\<rparr>),
           after (start_events h
                  @ concat (map (write_byte_events h) (tx_bytes addr buf len))
                  @ stop_events h) (length (tx_bytes addr buf len)) w)"
proof -
  let ?w1 = "after (start_events h @ write_byte_events h (push_bit 1 addr)) (Suc 0) w"
  have len: "length (tx_bytes addr buf len) = Suc (unat len)"
    using assms(3) by (simp add: tx_bytes_def)
  have ack0: "sda_in w (sda_pos w) = 0" using acks len by auto
  have rest: "\<forall>j<unat len. sda_in ?w1 (sda_pos ?w1 + j) = 0"
    using acks len by (auto simp add: add.assoc)
  have loop: "iic_write_loop (Some (h\<lparr>bus_busy := 1\<rparr>)) buf (unat len) 0 ?w1 =
     Some (IIC_OK, Some (h\<lparr>bus_busy := 1\<rparr>),
           after (concat (map (write_byte_events h) (take (unat len) (drop 0 buf))))
             (unat len) ?w1)"
    using iic_write_loop_acked [of "h\<lparr>bus_busy := 1\<rparr>" 0 "unat len" "unat len" buf ?w1]
      assms(1,3) rest by simp
  show ?thesis
    using assms(1,2,3) ack0 loop
    by (simp add: iic_write_def iic_start_after iic_write_byte_after tx_bytes_def
        iic_stop_after)
qed

lemma iic_read_loop_steps:
  "iic_defined h \<Longrightarrow> i + n = len \<Longrightarrow> len \<le> length data \<Longrightarrow>
   iic_read_loop (Some h) data len i w =
     Some (IIC_OK, Some h, rx_fill (sda_in w) (sda_pos w) data i n,
           after (rx_events h i len) (8 * n) w)"
proof (induction n arbitrary: i data w)
  case 0
  then show ?case by (simp add: iic_read_loop.simps rx_events_def)
next
  case (Suc n)
  let ?a = "if i < len - 1 then 1 else 0 :: u8"
  let ?w1 = "after (read_byte_events h ?a) 8 w"
  let ?d1 = "data[i := rx_byte (sda_in w) (sda_pos w)]"
  have i: "i < len" "i < length data" using Suc.prems by auto
  have IH: "iic_read_loop (Some h) ?d1 len (Suc i) ?w1 =
     Some (IIC_OK, Some h, rx_fill (sda_in ?w1) (sda_pos ?w1) ?d1 (Suc i) n,
           after (rx_events h (Suc i) len) (8 * n) ?w1)"
    using Suc.IH [of "Suc i" ?d1 ?w1] Suc.prems by simp
  have ev: "rx_events h i len = read_byte_events h ?a @ rx_events h (Suc i) len"
    using i by (simp add: rx_events_def upt_conv_Cons del: upt_Suc)
  show ?case
    apply (subst iic_read_loop.simps)
    using i Suc.prems(1) IH
    apply (simp add: iic_read_byte_after ev del: upt_Suc)
    done
qed

lemma iic_read_ok:
  assumes "iic_defined h" "len \<noteq> 0" "unat len \<le> length buf"
    and ack: "sda_in w (sda_pos w) = 0"
  shows "iic_read (Some h) addr (Some buf) len w =
     Some (IIC_OK, Some (h\<lparr>bus_busy := 0\<rparr>),
           Some (rx_fill (sda_in w) (Suc (sda_pos w)) buf 0 (unat len)),
           after (start_events h @ write_byte_events h (push_bit 1 addr OR 0x01)
                  @ rx_events h 0 (unat len) @ stop_events h) (Suc (8 * unat len)) w)"
proof -
  let ?w1 = "after (start_events h @ write_byte_events h (push_bit 1 addr OR 0x01)) (Suc 0) w"
  have loop: "iic_read_loop (Some (h\<lparr>bus_busy := 1\<rparr>)) buf (unat len) 0 ?w1 =
     Some (IIC_OK, Some (h\<lparr>bus_busy := 1\<rparr>), rx_fill (sda_in ?w1) (sda_pos ?w1) buf 0 (unat len),
           after (rx_events (h\<lparr>bus_busy := 1\<rparr>) 0 (unat len)) (8 * unat len) ?w1)"
    using iic_read_loop_steps [of "h\<lparr>bus_busy := 1\<rparr>" 0 "unat len" "unat len" buf ?w1]
      assms(1,3) by simp
  have ev: "rx_events (h\<lparr>bus_busy := 1\<rparr>) = rx_events h"
    by (simp add: rx_events_def fun_eq_iff)
  show ?thesis
    using assms(1,2) ack loop
    by (simp add: iic_read_def iic_start_after iic_write_byte_after ev iic_stop_after)
qed

lemma iic_read_nack:
  assumes "iic_defined h" "len \<noteq> 0"
    and nack: "sda_in w (sda_pos w) \<noteq> 0"
  shows "iic_read (Some h) addr (Some buf) len w =
     Some (IIC_ERR_NACK, Some (h\<lparr>bus_busy := 0\<rparr>), Some buf,
           after (start_events h @ write_byte_events h (push_bit 1 addr OR 0x01)
                  @ stop_events h) (Suc 0) w)"
  using assms
  by (simp add: iic_read_def iic_start_after iic_write_byte_after iic_stop_after)


section \<open>Protocol driver: status poll and read\<close>

lemma rx_fill_all:
  "length data = n \<Longrightarrow> rx_fill f p data 0 n = map (\<lambda>j. rx_byte f (p + 8 * j)) [0..<n]"
proof -
  have gen: "i + n = length data \<Longrightarrow>
      rx_fill f p data i n = take i data @ map (\<lambda>j. rx_byte f (p + 8 * j)) [0..<n]" for i n p data
  proof (induction n arbitrary: i p data)
    case 0
    then show ?case by simp
  next
    case (Suc n)
    have i: "i < length data" using Suc.prems by simp
    have "rx_fill f (p + 8) (data[i := rx_byte f p]) (Suc i) n =
        take (Suc i) (data[i := rx_byte f p]) @ map (\<lambda>j. rx_byte f (p + 8 + 8 * j)) [0..<n]"
      using Suc.IH [of "Suc i" "data[i := rx_byte f p]" "p + 8"] Suc.prems by simp
    also have "take (Suc i) (data[i := rx_byte f p]) = take i data @ [rx_byte f p]"
      using i by (simp add: take_Suc_conv_app_nth)
    also have "map (\<lambda>j. rx_byte f (p + 8 + 8 * j)) [0..<n] = map (\<lambda>j. rx_byte f (p + 8 * j)) (map Suc [0..<n])"
      by (simp add: comp_def add.assoc)
    finally show ?case
      by (simp add: upt_conv_Cons map_Suc_upt del: upt_Suc)
  qed
  assume "length data = n"
  then show ?thesis using gen [of 0 n data p] by simp
qed

lemma aht21_check_status_ok:
  assumes "iic h = Some b" "iic_defined b" "sda_in w (sda_pos w) = 0"
  shows "aht21_check_status h s0 w =
     Some (AHT21_OK, rx_byte (sda_in w) (Suc (sda_pos w)),
           h\<lparr>iic := Some (b\<lparr>bus_busy := 0\<rparr>)\<rparr>, after (status_events b) 9 w)"
  using assms iic_read_ok [of b 1 "[s0]" w AHT21_ADDR]
  by (simp add: aht21_check_status_def status_events_def rx_fill_all)

lemma aht21_check_status_nack:
  assumes "iic h = Some b" "iic_defined b" "sda_in w (sda_pos w) \<noteq> 0"
  shows "aht21_check_status h s0 w =
     Some (AHT21_ERR_IIC, s0,
           h\<lparr>iic := Some (b\<lparr>bus_busy := 0\<rparr>)\<rparr>, after (refused_read_events b) 1 w)"
  using assms iic_read_nack [of b 1 w AHT21_ADDR "[s0]"]
  by (simp add: aht21_check_status_def refused_read_events_def)

lemma aht21_read_data_busy:
  assumes "iic h = Some b" "iic_defined b" "sda_in w (sda_pos w) = 0"
    and "rx_byte (sda_in w) (Suc (sda_pos w)) AND AHT21_STATUS_BUSY \<noteq> 0"
  shows "aht21_read_data (Some h) w =
     Some (AHT21_ERR_BUSY, Some (h\<lparr>iic := Some (b\<lparr>bus_busy := 0\<rparr>)\<rparr>),
           after (status_events b) 9 w)"
  using assms by (simp add: aht21_read_data_def aht21_check_status_ok)

lemma aht21_read_data_ok:
  assumes "iic h = Some b" "iic_defined b" "length (raw_data h) = 7"
    and "sda_in w (sda_pos w) = 0"
    and "rx_byte (sda_in w) (Suc (sda_pos w)) AND AHT21_STATUS_BUSY = 0"
    and "sda_in w (sda_pos w + 9) = 0"
  shows "aht21_read_data (Some h) w =
     Some (AHT21_OK,
           Some ((aht21_parse_data
                   (h\<lparr>iic := Some (b\<lparr>bus_busy := 0\<rparr>),
                      raw_data := rx_reply (sda_in w) (sda_pos w + 10)\<rparr>))
                 \<lparr>state := AHT21_STATE_READY\<rparr>),
           after (status_events b @ reply_events b) 66 w)"
proof -
  let ?h1 = "h\<lparr>iic := Some (b\<lparr>bus_busy := 0\<rparr>)\<rparr>"
  let ?w1 = "after (status_events b) 9 w"
  have rd: "iic_read (Some (b\<lparr>bus_busy := 0\<rparr>)) AHT21_ADDR (Some (raw_data h)) 7 ?w1 =
     Some (IIC_OK, Some (b\<lparr>bus_busy := 0\<rparr>),
           Some (rx_fill (sda_in ?w1) (Suc (sda_pos ?w1)) (raw_data h) 0 (unat (7 :: u16))),
           after (start_events b @ write_byte_events b (push_bit 1 AHT21_ADDR OR 0x01)
                  @ rx_events b 0 (unat (7 :: u16)) @ stop_events b) (Suc (8 * unat (7 :: u16))) ?w1)"
    using iic_read_ok [of "b\<lparr>bus_busy := 0\<rparr>" 7 "raw_data h" ?w1 AHT21_ADDR] assms
    by (simp add: rx_events_def)
  show ?thesis
    using assms rd
    by (simp add: aht21_read_data_def aht21_check_status_ok rx_fill_all rx_reply_def
        reply_events_def add.commute [of 10 "sda_pos w"] del: upt_Suc)
qed


section \<open>Protocol driver: refusals\<close>


lemma demo_bus_defined [simp]: "iic_defined demo_bus"
  by (simp add: iic_defined_def demo_bus_def demo_ops_def)

lemma demo_world_fields [simp]:
  "sda_in (demo_world f) = f" "sda_pos (demo_world f) = 0" "trace (demo_world f) = []"
  by (simp_all add: demo_world_def)

lemma demo_aht21_fields [simp]:
  "iic (demo_aht21 st) = Some demo_bus" "state (demo_aht21 st) = st"
  "length (raw_data (demo_aht21 st)) = 7"
  by (simp_all add: demo_aht21_def)

lemma aht21_trigger_measure_ok:
  assumes "iic h = Some b" "iic_defined b" "state h \<noteq> AHT21_STATE_WAIT_MEASURE"
    and "\<forall>j<4. sda_in w (sda_pos w + j) = 0"
  shows "aht21_trigger_measure (Some h) w =
     Some (AHT21_OK,
           Some (h\<lparr>iic := Some (b\<lparr>bus_busy := 0\<rparr>), state := AHT21_STATE_WAIT_MEASURE,
                   measure_ticks := 0\<rparr>),
           after (trigger_events b) 4 w)"
  using assms iic_write_ok [of b 3 "[AHT21_CMD_TRIGGER, 0x33, 0x00]" AHT21_ADDR w]
  by (simp add: aht21_trigger_measure_def trigger_events_def tx_bytes_def)

lemma aht21_read_data_failure_frame:
  assumes "aht21_read_data (Some h) w = Some (r, Some h', w')" "r \<noteq> AHT21_OK"
  shows "state h' = state h \<and> temperature h' = temperature h \<and> humidity h' = humidity h
         \<and> measure_ticks h' = measure_ticks h"
  using assms
  by (auto simp add: aht21_read_data_def aht21_check_status_def Let_def
      split: Option.bind_splits prod.splits if_splits)

text \<open>
  C6. A handle whose state is WAIT_MEASURE is refused by \<open>aht21_trigger_measure\<close>: the
  result is BUSY, nothing is written to the bus (the platform is returned as it was) and
  the handle, its state included, is unchanged. Hence a trigger that follows a successful
  trigger returns BUSY, also when a \<open>aht21_read_data\<close> that did not succeed came in
  between.
\<close>

theorem trigger_measure_refused_while_waiting:
  "(state h = AHT21_STATE_WAIT_MEASURE \<longrightarrow>
      aht21_trigger_measure (Some h) w = Some (AHT21_ERR_BUSY, Some h, w))
   \<and> (aht21_trigger_measure (Some h) w = Some (AHT21_OK, Some h1, w1) \<longrightarrow>
        state h1 = AHT21_STATE_WAIT_MEASURE
        \<and> aht21_trigger_measure (Some h1) w1 = Some (AHT21_ERR_BUSY, Some h1, w1))
   \<and> (aht21_trigger_measure (Some h) w = Some (AHT21_OK, Some h1, w1)
        \<and> aht21_read_data (Some h1) w1 = Some (r, Some h2, w2) \<and> r \<noteq> AHT21_OK \<longrightarrow>
        state h2 = AHT21_STATE_WAIT_MEASURE
        \<and> aht21_trigger_measure (Some h2) w2 = Some (AHT21_ERR_BUSY, Some h2, w2))"
proof -
  have busy: "aht21_trigger_measure (Some g) v = Some (AHT21_ERR_BUSY, Some g, v)"
    if "state g = AHT21_STATE_WAIT_MEASURE" for g v
    using that by (simp add: aht21_trigger_measure_def)
  have ok: "state g' = AHT21_STATE_WAIT_MEASURE"
    if "aht21_trigger_measure (Some g) v = Some (AHT21_OK, Some g', v')" for g v g' v'
    using that
    by (auto simp add: aht21_trigger_measure_def Let_def
        split: Option.bind_splits prod.splits if_splits)
  show ?thesis
    using busy ok aht21_read_data_failure_frame by metis
qed

theorem trigger_measure_refused_while_waiting_witness:
  "state (demo_aht21 AHT21_STATE_WAIT_MEASURE) = AHT21_STATE_WAIT_MEASURE
   \<and> aht21_trigger_measure (Some (demo_aht21 AHT21_STATE_WAIT_MEASURE)) (demo_world line_low)
       = Some (AHT21_ERR_BUSY, Some (demo_aht21 AHT21_STATE_WAIT_MEASURE), demo_world line_low)
   \<and> aht21_trigger_measure (Some (demo_aht21 AHT21_STATE_IDLE)) (demo_world line_low)
       = Some (AHT21_OK,
               Some ((demo_aht21 AHT21_STATE_IDLE)
                 \<lparr>iic := Some (demo_bus\<lparr>bus_busy := 0\<rparr>), state := AHT21_STATE_WAIT_MEASURE,
                   measure_ticks := 0\<rparr>),
               after (trigger_events demo_bus) 4 (demo_world line_low))
   \<and> aht21_trigger_measure
         (Some ((demo_aht21 AHT21_STATE_IDLE)
           \<lparr>iic := Some (demo_bus\<lparr>bus_busy := 0\<rparr>), state := AHT21_STATE_WAIT_MEASURE,
             measure_ticks := 0\<rparr>))
         (after (trigger_events demo_bus) 4 (demo_world line_low))
       = Some (AHT21_ERR_BUSY,
               Some ((demo_aht21 AHT21_STATE_IDLE)
                 \<lparr>iic := Some (demo_bus\<lparr>bus_busy := 0\<rparr>), state := AHT21_STATE_WAIT_MEASURE,
                   measure_ticks := 0\<rparr>),
               after (trigger_events demo_bus) 4 (demo_world line_low))"
proof -
  let ?h = "demo_aht21 AHT21_STATE_IDLE"
  let ?w = "demo_world line_low"
  let ?h1 = "?h\<lparr>iic := Some (demo_bus\<lparr>bus_busy := 0\<rparr>), state := AHT21_STATE_WAIT_MEASURE,
                 measure_ticks := 0\<rparr>"
  let ?w1 = "after (trigger_events demo_bus) 4 ?w"
  have first: "aht21_trigger_measure (Some ?h) ?w = Some (AHT21_OK, Some ?h1, ?w1)"
    by (rule aht21_trigger_measure_ok) (simp_all add: line_low_def)
  have waiting: "state (demo_aht21 AHT21_STATE_WAIT_MEASURE) = AHT21_STATE_WAIT_MEASURE"
    by simp
  show ?thesis
    using first waiting
      trigger_measure_refused_while_waiting
        [of "demo_aht21 AHT21_STATE_WAIT_MEASURE" ?w ?h1 ?w1 AHT21_OK ?h1 ?w1]
      trigger_measure_refused_while_waiting [of ?h ?w ?h1 ?w1 AHT21_OK ?h1 ?w1]
    by simp
qed

text \<open>
  C5. When the status byte read by \<open>aht21_read_data\<close> has the busy bit (bit 7) set, the
  result is BUSY and the handle keeps its cached temperature and humidity, its raw reply
  buffer, its state, its tick counter and its interval; only the bus handle's busy flag
  is rewritten (to 0, by the stop condition). Polling the returned handle again under a
  busy status returns that same handle.
\<close>

theorem read_data_busy_poll_is_idempotent:
  assumes "iic h = Some b" and "iic_defined b"
    and "sda_in w (sda_pos w) = 0"
    and "rx_byte (sda_in w) (Suc (sda_pos w)) AND AHT21_STATUS_BUSY \<noteq> 0"
  shows "\<exists>h' w'. aht21_read_data (Some h) w = Some (AHT21_ERR_BUSY, Some h', w')
           \<and> temperature h' = temperature h \<and> humidity h' = humidity h
           \<and> raw_data h' = raw_data h \<and> state h' = state h
           \<and> measure_ticks h' = measure_ticks h
           \<and> measure_interval h' = measure_interval h
           \<and> h' = h\<lparr>iic := Some (b\<lparr>bus_busy := 0\<rparr>)\<rparr>
           \<and> w' = after (status_events b) 9 w
           \<and> (\<forall>v. sda_in v (sda_pos v) = 0
                    \<and> rx_byte (sda_in v) (Suc (sda_pos v)) AND AHT21_STATUS_BUSY \<noteq> 0 \<longrightarrow>
                  aht21_read_data (Some h') v
                    = Some (AHT21_ERR_BUSY, Some h', after (status_events b) 9 v))"
proof -
  let ?h' = "h\<lparr>iic := Some (b\<lparr>bus_busy := 0\<rparr>)\<rparr>"
  have first: "aht21_read_data (Some h) w
      = Some (AHT21_ERR_BUSY, Some ?h', after (status_events b) 9 w)"
    using assms by (rule aht21_read_data_busy)
  have again: "aht21_read_data (Some ?h') v
      = Some (AHT21_ERR_BUSY, Some ?h', after (status_events b) 9 v)"
    if "sda_in v (sda_pos v) = 0"
      "rx_byte (sda_in v) (Suc (sda_pos v)) AND AHT21_STATUS_BUSY \<noteq> 0" for v
    using aht21_read_data_busy [of ?h' "b\<lparr>bus_busy := 0\<rparr>" v] assms(2) that
    by (simp add: status_events_def rx_events_def)
  show ?thesis
    using first again by simp
qed

lemma rx_byte_line_busy: "rx_byte line_busy (Suc 0) = 0x80"
  by (simp add: rx_byte_def line_busy_def eval_nat_numeral)

theorem read_data_busy_poll_is_idempotent_witness:
  "iic (demo_aht21 AHT21_STATE_WAIT_MEASURE) = Some demo_bus \<and> iic_defined demo_bus
   \<and> sda_in (demo_world line_busy) (sda_pos (demo_world line_busy)) = 0
   \<and> rx_byte (sda_in (demo_world line_busy)) (Suc (sda_pos (demo_world line_busy)))
        AND AHT21_STATUS_BUSY \<noteq> 0
   \<and> aht21_read_data (Some (demo_aht21 AHT21_STATE_WAIT_MEASURE)) (demo_world line_busy)
       = Some (AHT21_ERR_BUSY,
               Some ((demo_aht21 AHT21_STATE_WAIT_MEASURE)\<lparr>iic := Some (demo_bus\<lparr>bus_busy := 0\<rparr>)\<rparr>),
               after (status_events demo_bus) 9 (demo_world line_busy))"
proof -
  have a: "iic (demo_aht21 AHT21_STATE_WAIT_MEASURE) = Some demo_bus" by simp
  have b: "iic_defined demo_bus" by simp
  have c: "sda_in (demo_world line_busy) (sda_pos (demo_world line_busy)) = 0"
    by (simp add: line_busy_def)
  have d: "rx_byte (sda_in (demo_world line_busy)) (Suc (sda_pos (demo_world line_busy)))
        AND AHT21_STATUS_BUSY \<noteq> 0"
    by (simp add: rx_byte_line_busy AHT21_STATUS_BUSY_def)
  show ?thesis
    using read_data_busy_poll_is_idempotent [OF a b c d] a b c d by auto
qed



section \<open>Bus engine: writes that are refused\<close>


lemma acked_prefix_le: "acked_prefix f p n \<le> n"
  by (induction n arbitrary: p) auto

lemma acked_prefix_acks: "j < acked_prefix f p n \<Longrightarrow> f (p + j) = 0"
proof (induction n arbitrary: p j)
  case 0
  then show ?case by simp
next
  case (Suc n)
  show ?case
  proof (cases j)
    case 0
    with Suc.prems show ?thesis by (simp split: if_splits)
  next
    case (Suc i)
    with Suc.prems Suc.IH [of i "Suc p"] show ?thesis by (simp split: if_splits)
  qed
qed

lemma acked_prefix_nack: "acked_prefix f p n < n \<Longrightarrow> f (p + acked_prefix f p n) \<noteq> 0"
proof (induction n arbitrary: p)
  case 0
  then show ?case by simp
next
  case (Suc n)
  show ?case
  proof (cases "f p = 0")
    case True
    with Suc.prems have "acked_prefix f (Suc p) n < n" by simp
    then have "f (Suc p + acked_prefix f (Suc p) n) \<noteq> 0" by (rule Suc.IH)
    with True show ?thesis by simp
  next
    case False
    then show ?thesis by simp
  qed
qed

lemma lines_after_simps [simp]:
  "lines_after ls [] = ls"
  "lines_after ls (e # es) = lines_after (line_step ls e) es"
  "lines_after ls (es @ fs) = lines_after (lines_after ls es) fs"
  by (simp_all add: lines_after_def)

lemma stop_conditions_append [simp]:
  "stop_conditions ls (es @ fs) = stop_conditions ls es + stop_conditions (lines_after ls es) fs"
  by (induction es arbitrary: ls) simp_all

lemma delay_events_lines [simp]:
  "stop_conditions ls (delay_events h) = 0" "lines_after ls (delay_events h) = ls"
  by (cases ls, simp add: delay_events_def)+

lemma start_events_lines:
  "stop_conditions bus_idle (start_events h) = 0"
  "lines_after bus_idle (start_events h) = (False, False)"
  by (simp_all add: start_events_def bus_idle_def)

lemma tx_bit_events_lines [simp]:
  "stop_conditions (False, s) (tx_bit_events h b) = 0"
  "lines_after (False, s) (tx_bit_events h b) = (False, b)"
  by (simp_all add: tx_bit_events_def)

lemma tx_bits_lines:
  "stop_conditions (False, s) (concat (map (\<lambda>k. tx_bit_events h (g k)) ks)) = 0
   \<and> fst (lines_after (False, s) (concat (map (\<lambda>k. tx_bit_events h (g k)) ks))) = False"
  by (induction ks arbitrary: s) simp_all

lemma write_byte_events_lines [simp]:
  "stop_conditions (c, s) (write_byte_events h d) = 0"
  "lines_after (c, s) (write_byte_events h d) = (False, True)"
proof -
  let ?bits = "concat (map (\<lambda>k. tx_bit_events h (bit d (7 - k))) [0..<8])"
  obtain s' where after_bits: "lines_after (False, s) ?bits = (False, s')"
    using tx_bits_lines [of s h "\<lambda>k. bit d (7 - k)" "[0..<8]"]
    by (cases "lines_after (False, s) ?bits") auto
  have no_stop: "stop_conditions (False, s) ?bits = 0"
    using tx_bits_lines [of s h "\<lambda>k. bit d (7 - k)" "[0..<8]"] by blast
  show "stop_conditions (c, s) (write_byte_events h d) = 0"
    by (simp add: write_byte_events_def after_bits no_stop del: upt_Suc)
  show "lines_after (c, s) (write_byte_events h d) = (False, True)"
    by (simp add: write_byte_events_def after_bits del: upt_Suc)
qed

lemma write_bytes_lines:
  "stop_conditions (False, s) (concat (map (write_byte_events h) bs)) = 0
   \<and> fst (lines_after (False, s) (concat (map (write_byte_events h) bs))) = False"
  by (induction bs arbitrary: s) simp_all

lemma stop_events_lines [simp]:
  "stop_conditions (False, s) (stop_events h) = 1"
  "lines_after (False, s) (stop_events h) = bus_idle"
  by (simp_all add: stop_events_def bus_idle_def)

lemma transfer_has_one_stop:
  "stop_conditions bus_idle (start_events h @ concat (map (write_byte_events h) bs)) = 0
   \<and> stop_conditions bus_idle
        (start_events h @ concat (map (write_byte_events h) bs) @ stop_events h) = 1
   \<and> lines_after bus_idle
        (start_events h @ concat (map (write_byte_events h) bs) @ stop_events h) = bus_idle"
proof -
  let ?tx = "concat (map (write_byte_events h) bs)"
  obtain s' where tx: "lines_after (False, False) ?tx = (False, s')"
    using write_bytes_lines [of False h bs] by (cases "lines_after (False, False) ?tx") auto
  have none: "stop_conditions (False, False) ?tx = 0"
    using write_bytes_lines [of False h bs] by blast
  show ?thesis
    by (simp add: start_events_lines tx none)
qed

lemma iic_write_run:
  assumes "iic_defined h" and "len \<noteq> 0" and "unat len \<le> length buf"
  shows "iic_write (Some h) addr (Some buf) len w
      = Some (if acked_prefix (sda_in w) (sda_pos w) (length (tx_bytes addr buf len))
                   < length (tx_bytes addr buf len)
              then IIC_ERR_NACK else IIC_OK,
              Some (h\<lparr>bus_busy := 0\<rparr>),
              after (start_events h
                     @ concat (map (write_byte_events h)
                         (take (Suc (acked_prefix (sda_in w) (sda_pos w)
                                       (length (tx_bytes addr buf len))))
                            (tx_bytes addr buf len)))
                     @ stop_events h)
                (length (take (Suc (acked_prefix (sda_in w) (sda_pos w)
                                      (length (tx_bytes addr buf len))))
                           (tx_bytes addr buf len))) w)"
proof -
  define bytes where "bytes = tx_bytes addr buf len"
  define k where "k = acked_prefix (sda_in w) (sda_pos w) (length bytes)"
  define sent where "sent = take (Suc k) bytes"
  have k_le: "k \<le> length bytes" unfolding k_def by (rule acked_prefix_le)
  have acks: "\<forall>j<k. sda_in w (sda_pos w + j) = 0"
    unfolding k_def using acked_prefix_acks by blast
  have "iic_write (Some h) addr (Some buf) len w
      = Some (if k < length bytes then IIC_ERR_NACK else IIC_OK, Some (h\<lparr>bus_busy := 0\<rparr>),
              after (start_events h @ concat (map (write_byte_events h) sent) @ stop_events h)
                (length sent) w)"
  proof (cases "k < length bytes")
    case True
    have nack: "sda_in w (sda_pos w + k) \<noteq> 0"
      using True unfolding k_def by (rule acked_prefix_nack)
    have "length sent = Suc k" using True by (simp add: sent_def)
    then show ?thesis
      using iic_write_nack [OF assms True [unfolded bytes_def] acks nack] True
      by (simp add: sent_def bytes_def)
  next
    case False
    then have full: "k = length bytes" using k_le by simp
    then have "sent = bytes" by (simp add: sent_def)
    then show ?thesis
      using iic_write_ok [OF assms, of addr w] acks full
      by (simp add: bytes_def)
  qed
  then show ?thesis
    unfolding sent_def k_def bytes_def .
qed

text \<open>
  C4. A write that passes parameter validation (handle and buffer present, length not
  zero) runs as follows, whatever the device answers. Let \<open>k\<close> be the number of bytes,
  counted from the address byte, that are acknowledged before the first NACK. The bytes put
  on the bus are exactly the address byte \<open>addr << 1\<close> and the payload bytes up to and
  including the first one that is not acknowledged, and nothing after it; the stop sequence
  follows at once and is the last thing emitted; the result is NACK when a byte was refused
  and OK otherwise; the handle's busy flag is cleared. A NACK on the address byte therefore
  puts no payload byte on the bus. Read as line levels from an idle bus, the emitted events
  contain no stop condition before the final stop sequence and exactly one with it.
\<close>

theorem iic_write_nack_aborts_with_one_stop:
  assumes "iic_defined h" and "len \<noteq> 0" and "unat len \<le> length buf"
  shows
    "(let bytes = tx_bytes addr buf len;
          k = acked_prefix (sda_in w) (sda_pos w) (length bytes);
          sent = take (Suc k) bytes;
          before_stop = start_events h @ concat (map (write_byte_events h) sent)
      in iic_write (Some h) addr (Some buf) len w
           = Some (if k < length bytes then IIC_ERR_NACK else IIC_OK,
                   Some (h\<lparr>bus_busy := 0\<rparr>),
                   after (before_stop @ stop_events h) (length sent) w)
         \<and> (sda_in w (sda_pos w) \<noteq> 0 \<longrightarrow> sent = [push_bit 1 addr])
         \<and> stop_conditions bus_idle before_stop = 0
         \<and> stop_conditions bus_idle (before_stop @ stop_events h) = 1)"
proof -
  define bytes where "bytes = tx_bytes addr buf len"
  define k where "k = acked_prefix (sda_in w) (sda_pos w) (length bytes)"
  define sent where "sent = take (Suc k) bytes"
  have run: "iic_write (Some h) addr (Some buf) len w
      = Some (if k < length bytes then IIC_ERR_NACK else IIC_OK, Some (h\<lparr>bus_busy := 0\<rparr>),
              after (start_events h @ concat (map (write_byte_events h) sent) @ stop_events h)
                (length sent) w)"
    unfolding sent_def k_def bytes_def using assms by (rule iic_write_run)
  have first: "sent = [push_bit 1 addr]" if "sda_in w (sda_pos w) \<noteq> 0"
  proof -
    have "bytes = push_bit 1 addr # take (unat len) buf" by (simp add: bytes_def tx_bytes_def)
    moreover have "k = 0" using that by (simp add: k_def calculation)
    ultimately show ?thesis by (simp add: sent_def)
  qed
  show ?thesis
    unfolding Let_def bytes_def [symmetric] k_def [symmetric] sent_def [symmetric]
    using run first transfer_has_one_stop [of h sent]
    by simp
qed

lemma demo_write_lengths [simp]:
  "length (tx_bytes a [x, y, z] 3) = 4" "tx_bytes a [x, y, z] 3 = [push_bit 1 a, x, y, z]"
  by (simp_all add: tx_bytes_def)

theorem iic_write_nack_aborts_with_one_stop_witness:
  "iic_defined demo_bus \<and> (3 :: u16) \<noteq> 0
   \<and> unat (3 :: u16) \<le> length [AHT21_CMD_TRIGGER, 0x33, 0x00]
   \<and> iic_write (Some demo_bus) AHT21_ADDR (Some [AHT21_CMD_TRIGGER, 0x33, 0x00]) 3
        (demo_world line_high)
       = Some (IIC_ERR_NACK, Some (demo_bus\<lparr>bus_busy := 0\<rparr>),
               after (start_events demo_bus
                      @ concat (map (write_byte_events demo_bus) [push_bit 1 AHT21_ADDR])
                      @ stop_events demo_bus) 1 (demo_world line_high))
   \<and> iic_write (Some demo_bus) AHT21_ADDR (Some [AHT21_CMD_TRIGGER, 0x33, 0x00]) 3
        (demo_world line_low)
       = Some (IIC_OK, Some (demo_bus\<lparr>bus_busy := 0\<rparr>),
               after (start_events demo_bus
                      @ concat (map (write_byte_events demo_bus)
                          [push_bit 1 AHT21_ADDR, AHT21_CMD_TRIGGER, 0x33, 0x00])
                      @ stop_events demo_bus) 4 (demo_world line_low))"
proof -
  let ?buf = "[AHT21_CMD_TRIGGER, 0x33, 0x00]"
  have a: "iic_defined demo_bus" by simp
  have b: "(3 :: u16) \<noteq> 0" by simp
  have c: "unat (3 :: u16) \<le> length ?buf" by simp
  have bytes: "tx_bytes AHT21_ADDR ?buf 3 = [push_bit 1 AHT21_ADDR, AHT21_CMD_TRIGGER, 0x33, 0x00]"
    by (simp add: tx_bytes_def)
  have high: "acked_prefix (sda_in (demo_world line_high)) (sda_pos (demo_world line_high))
      (length [push_bit 1 AHT21_ADDR, AHT21_CMD_TRIGGER, 0x33, 0x00]) = 0"
    by (simp add: line_high_def)
  have low: "acked_prefix (sda_in (demo_world line_low)) (sda_pos (demo_world line_low))
      (length [push_bit 1 AHT21_ADDR, AHT21_CMD_TRIGGER, 0x33, 0x00]) = 4"
    by (simp add: line_low_def)
  have refused: "iic_write (Some demo_bus) AHT21_ADDR (Some ?buf) 3 (demo_world line_high)
       = Some (IIC_ERR_NACK, Some (demo_bus\<lparr>bus_busy := 0\<rparr>),
               after (start_events demo_bus
                      @ concat (map (write_byte_events demo_bus) [push_bit 1 AHT21_ADDR])
                      @ stop_events demo_bus) 1 (demo_world line_high))"
    using iic_write_nack_aborts_with_one_stop [OF a b c, of AHT21_ADDR "demo_world line_high",
        unfolded Let_def bytes high, THEN conjunct1]
    by simp
  have accepted: "iic_write (Some demo_bus) AHT21_ADDR (Some ?buf) 3 (demo_world line_low)
       = Some (IIC_OK, Some (demo_bus\<lparr>bus_busy := 0\<rparr>),
               after (start_events demo_bus
                      @ concat (map (write_byte_events demo_bus)
                          [push_bit 1 AHT21_ADDR, AHT21_CMD_TRIGGER, 0x33, 0x00])
                      @ stop_events demo_bus) 4 (demo_world line_low))"
    using iic_write_nack_aborts_with_one_stop [OF a b c, of AHT21_ADDR "demo_world line_low",
        unfolded Let_def bytes low, THEN conjunct1]
    by simp
  show ?thesis
    using a b c refused accepted by blast
qed



section \<open>Bus engine: the half-period delay\<close>


lemma word_if_pos_max: "(if 0 < d then d else 1) = max d (1 :: u32)"
proof (cases "d = 0")
  case True
  then show ?thesis by (simp add: max_def)
next
  case False
  then have "0 < unat d" by (simp add: unat_gt_0)
  then have "1 \<le> d" by (simp add: word_le_nat_alt Suc_le_eq)
  with False show ?thesis by (auto simp add: max_def word_greater_zero_iff)
qed

lemma polled_bus_defined [simp]: "iic_defined polled_bus"
  by (simp add: iic_defined_def polled_bus_def)


lemma delays_of_append [simp]: "delays_of (xs @ ys) = delays_of xs @ delays_of ys"
  by (induction xs rule: delays_of.induct) simp_all

lemma delays_of_concat_replicate:
  "delays_of es = replicate k d \<Longrightarrow> delays_of (concat (replicate n es)) = replicate (n * k) d"
  by (induction n) (simp_all add: replicate_add)

lemma delays_of_concat_map:
  "(\<And>x. x \<in> set xs \<Longrightarrow> delays_of (f x) = replicate k d) \<Longrightarrow>
   delays_of (concat (map f xs)) = replicate (length xs * k) d"
  by (induction xs) (simp_all add: replicate_add)

lemma replicate_18: "replicate 16 x @ [x, x] = replicate 18 x"
proof -
  have "replicate 18 x = replicate (16 + 2) x" by simp
  also have "\<dots> = replicate 16 x @ replicate 2 x" by (rule replicate_add)
  also have "replicate 2 x = [x, x]" by (simp add: eval_nat_numeral)
  finally show ?thesis by simp
qed

lemma half_period_max: "half_period h = max (500 div speed_khz h) 1"
  by (simp add: half_period_def Let_def word_if_pos_max)

lemma delays_of_delay_events:
  "delays_of (delay_events h) = (if delay_us (hal_ops h) then [half_period h] else [])"
  by (simp add: delay_events_def)

lemma delays_of_start_events:
  "delays_of (start_events h) = (if delay_us (hal_ops h) then replicate 2 (half_period h) else [])"
  by (simp add: start_events_def delays_of_delay_events eval_nat_numeral)

lemma delays_of_stop_events:
  "delays_of (stop_events h) = (if delay_us (hal_ops h) then replicate 3 (half_period h) else [])"
  by (simp add: stop_events_def delays_of_delay_events eval_nat_numeral)

lemma delays_of_tx_bit_events:
  "delays_of (tx_bit_events h b) = replicate (if delay_us (hal_ops h) then 2 else 0) (half_period h)"
  by (simp add: tx_bit_events_def delays_of_delay_events eval_nat_numeral)

lemma delays_of_rx_bit_events:
  "delays_of (rx_bit_events h) = replicate (if delay_us (hal_ops h) then 2 else 0) (half_period h)"
  by (simp add: rx_bit_events_def delays_of_delay_events eval_nat_numeral)

lemma delays_of_write_byte_events:
  "delays_of (write_byte_events h d) =
     (if delay_us (hal_ops h) then replicate 18 (half_period h) else [])"
proof -
  have bits: "delays_of (concat (map (\<lambda>k. tx_bit_events h (bit d (7 - k))) [0..<8]))
      = replicate (length [0..<8] * (if delay_us (hal_ops h) then 2 else 0)) (half_period h)"
    by (rule delays_of_concat_map) (rule delays_of_tx_bit_events)
  show ?thesis
    unfolding write_byte_events_def delays_of_append bits
    by (simp add: delays_of_delay_events replicate_18 del: upt_Suc)
qed

lemma delays_of_read_byte_events:
  "delays_of (read_byte_events h a) =
     (if delay_us (hal_ops h) then replicate 18 (half_period h) else [])"
proof -
  have bits: "delays_of (concat (replicate 8 (rx_bit_events h)))
      = replicate (8 * (if delay_us (hal_ops h) then 2 else 0)) (half_period h)"
    by (rule delays_of_concat_replicate) (rule delays_of_rx_bit_events)
  show ?thesis
    unfolding read_byte_events_def delays_of_append bits
    by (simp add: delays_of_delay_events replicate_18)
qed

lemma iic_delay_undefined:
  "delay_us (hal_ops h) \<Longrightarrow> speed_khz h = 0 \<Longrightarrow> iic_delay h w = None"
  by (simp add: iic_delay_def)

lemma primitives_undefined:
  assumes "\<not> iic_defined h"
  shows "iic_start (Some h) w = None" "iic_stop (Some h) w = None"
    "iic_write_byte (Some h) d w = None" "iic_read_byte (Some h) True a w = None"
proof -
  have cases: "\<not> sda_mode (hal_ops h) \<or> (sda_mode (hal_ops h) \<and> delay_us (hal_ops h) \<and> speed_khz h = 0)"
    using assms by (auto simp add: iic_defined_def)
  show "iic_start (Some h) w = None"
    using cases by (auto simp add: iic_start_def iic_delay_undefined hal_sda_mode_def)
  show "iic_stop (Some h) w = None"
    using cases by (auto simp add: iic_stop_def iic_delay_undefined hal_sda_mode_def)
  show "iic_write_byte (Some h) d w = None"
    using cases
    by (auto simp add: iic_write_byte_def iic_write_byte_loop.simps [of h 0] iic_delay_undefined
        hal_sda_mode_def)
  show "iic_read_byte (Some h) True a w = None"
    using cases
    by (auto simp add: iic_read_byte_def iic_read_byte_loop.simps [of h 0] iic_delay_undefined
        hal_sda_mode_def)
qed

lemma transfers_undefined:
  assumes "\<not> iic_defined h" "len \<noteq> 0"
  shows "iic_write (Some h) addr (Some buf) len w = None"
    "iic_read (Some h) addr (Some buf) len w = None"
  using assms by (simp_all add: iic_write_def iic_read_def primitives_undefined)

lemma iic_init_run:
  "iic_init (Some h0) (Some hops) w =
     Some (Some \<lparr>hal_ops = hops, speed_khz = 100, timeout_ms = 1000, bus_busy = 0\<rparr>,
           after ((if sda_mode hops then [Sda_mode 1] else []) @ [Set_sda 1, Set_scl 1]) 0 w)"
  by (simp add: iic_init_def Let_def hal_sda_mode_def after_def emit_def)

lemma bare_bus_undefined [simp]: "\<not> iic_defined bare_bus"
  by (simp add: iic_defined_def bare_bus_def)

lemma stalled_bus_undefined [simp]: "\<not> iic_defined (demo_bus\<lparr>speed_khz := 0\<rparr>)"
  by (simp add: iic_defined_def demo_bus_def demo_ops_def)


text \<open>
  C9, as the code has it. \<open>iic_delay\<close> tests the \<open>delay_us\<close> hook before it divides.
  With the hook installed it waits \<open>max (500 / speed_khz) 1\<close> microseconds when
  \<open>speed_khz\<close> is not zero, and at \<open>speed_khz = 0\<close> the division is undefined; with
  no hook it waits nothing and divides nothing, at any speed. The bus primitives (start,
  stop, byte write, byte read) call the \<open>sda_mode\<close> hook unguarded and then
  \<open>iic_delay\<close>, so they are defined exactly on a handle with an \<open>sda_mode\<close> hook that
  has no \<open>delay_us\<close> hook or a speed other than zero. On such a handle a start waits
  twice, a stop three times, a byte write and a byte read eighteen times each, every time
  \<open>max (500 / speed_khz) 1\<close> microseconds, and they wait nothing without the
  \<open>delay_us\<close> hook. On any other handle the four primitives are undefined, and so are
  \<open>iic_write\<close> and \<open>iic_read\<close> with a buffer and a length other than zero.
  \<open>iic_set_speed\<close> stores the value it is given, zero included, and \<open>iic_init\<close>
  sets 100 kHz on any table of hooks.
\<close>

theorem half_period_delay_needs_nonzero_speed:
  "iic_defined h = (sda_mode (hal_ops h) \<and> (delay_us (hal_ops h) \<longrightarrow> speed_khz h \<noteq> 0))
   \<and> (delay_us (hal_ops h) \<and> speed_khz h \<noteq> 0 \<longrightarrow>
        iic_delay h w = Some (emit (Delay_us (max (500 div speed_khz h) 1)) w))
   \<and> (delay_us (hal_ops h) \<and> speed_khz h = 0 \<longrightarrow> iic_delay h w = None)
   \<and> (\<not> delay_us (hal_ops h) \<longrightarrow> iic_delay h w = Some w)
   \<and> (iic_defined h \<longrightarrow>
        iic_start (Some h) w
          = Some (IIC_OK, Some (h\<lparr>bus_busy := 1\<rparr>), after (start_events h) 0 w)
        \<and> iic_stop (Some h) w
            = Some (IIC_OK, Some (h\<lparr>bus_busy := 0\<rparr>), after (stop_events h) 0 w)
        \<and> iic_write_byte (Some h) d w
            = Some (if sda_in w (sda_pos w) = 0 then IIC_OK else IIC_ERR_NACK,
                    after (write_byte_events h d) 1 w)
        \<and> iic_read_byte (Some h) True a w
            = Some (IIC_OK, Some (rx_byte (sda_in w) (sda_pos w)),
                    after (read_byte_events h a) 8 w)
        \<and> delays_of (start_events h)
            = (if delay_us (hal_ops h) then replicate 2 (max (500 div speed_khz h) 1) else [])
        \<and> delays_of (stop_events h)
            = (if delay_us (hal_ops h) then replicate 3 (max (500 div speed_khz h) 1) else [])
        \<and> delays_of (write_byte_events h d)
            = (if delay_us (hal_ops h) then replicate 18 (max (500 div speed_khz h) 1) else [])
        \<and> delays_of (read_byte_events h a)
            = (if delay_us (hal_ops h) then replicate 18 (max (500 div speed_khz h) 1) else []))
   \<and> (\<not> iic_defined h \<longrightarrow>
        iic_start (Some h) w = None \<and> iic_stop (Some h) w = None
        \<and> iic_write_byte (Some h) d w = None \<and> iic_read_byte (Some h) True a w = None
        \<and> (len \<noteq> 0 \<longrightarrow>
             iic_write (Some h) addr (Some buf) len w = None
             \<and> iic_read (Some h) addr (Some buf) len w = None))
   \<and> iic_set_speed (Some h) s = Some (h\<lparr>speed_khz := s\<rparr>)
   \<and> iic_init (Some h0) (Some hops) w =
       Some (Some \<lparr>hal_ops = hops, speed_khz = 100, timeout_ms = 1000, bus_busy = 0\<rparr>,
             after ((if sda_mode hops then [Sda_mode 1] else []) @ [Set_sda 1, Set_scl 1]) 0 w)"
proof (intro conjI impI)
  show "iic_defined h = (sda_mode (hal_ops h) \<and> (delay_us (hal_ops h) \<longrightarrow> speed_khz h \<noteq> 0))"
    by (auto simp add: iic_defined_def)
  show "iic_delay h w = Some (emit (Delay_us (max (500 div speed_khz h) 1)) w)"
    if "delay_us (hal_ops h) \<and> speed_khz h \<noteq> 0"
    using that by (simp add: iic_delay_def Let_def word_if_pos_max)
  show "iic_delay h w = None" if "delay_us (hal_ops h) \<and> speed_khz h = 0"
    using that by (simp add: iic_delay_undefined)
  show "iic_delay h w = Some w" if "\<not> delay_us (hal_ops h)"
    using that by (simp add: iic_delay_def)
  show "iic_set_speed (Some h) s = Some (h\<lparr>speed_khz := s\<rparr>)"
    by (simp add: iic_set_speed_def)
  show "iic_init (Some h0) (Some hops) w =
       Some (Some \<lparr>hal_ops = hops, speed_khz = 100, timeout_ms = 1000, bus_busy = 0\<rparr>,
             after ((if sda_mode hops then [Sda_mode 1] else []) @ [Set_sda 1, Set_scl 1]) 0 w)"
    by (rule iic_init_run)
next
  assume d: "iic_defined h"
  show "iic_start (Some h) w
          = Some (IIC_OK, Some (h\<lparr>bus_busy := 1\<rparr>), after (start_events h) 0 w)"
    using d by (rule iic_start_after)
  show "iic_stop (Some h) w
            = Some (IIC_OK, Some (h\<lparr>bus_busy := 0\<rparr>), after (stop_events h) 0 w)"
    using d by (rule iic_stop_after)
  show "iic_write_byte (Some h) d w
            = Some (if sda_in w (sda_pos w) = 0 then IIC_OK else IIC_ERR_NACK,
                    after (write_byte_events h d) 1 w)"
    using d by (rule iic_write_byte_after)
  show "iic_read_byte (Some h) True a w
            = Some (IIC_OK, Some (rx_byte (sda_in w) (sda_pos w)),
                    after (read_byte_events h a) 8 w)"
    using d by (rule iic_read_byte_after)
  show "delays_of (start_events h)
            = (if delay_us (hal_ops h) then replicate 2 (max (500 div speed_khz h) 1) else [])"
    by (simp only: delays_of_start_events half_period_max)
  show "delays_of (stop_events h)
            = (if delay_us (hal_ops h) then replicate 3 (max (500 div speed_khz h) 1) else [])"
    by (simp only: delays_of_stop_events half_period_max)
  show "delays_of (write_byte_events h d)
            = (if delay_us (hal_ops h) then replicate 18 (max (500 div speed_khz h) 1) else [])"
    by (simp only: delays_of_write_byte_events half_period_max)
  show "delays_of (read_byte_events h a)
            = (if delay_us (hal_ops h) then replicate 18 (max (500 div speed_khz h) 1) else [])"
    by (simp only: delays_of_read_byte_events half_period_max)
next
  assume u: "\<not> iic_defined h"
  show "iic_start (Some h) w = None" "iic_stop (Some h) w = None"
    "iic_write_byte (Some h) d w = None" "iic_read_byte (Some h) True a w = None"
    using u by (rule primitives_undefined)+
  assume "len \<noteq> 0"
  with u show "iic_write (Some h) addr (Some buf) len w = None"
    "iic_read (Some h) addr (Some buf) len w = None"
    by (rule transfers_undefined)+
qed

theorem half_period_delay_needs_nonzero_speed_witness:
  "iic_defined demo_bus \<and> delay_us (hal_ops demo_bus) \<and> speed_khz demo_bus \<noteq> 0
   \<and> iic_delay demo_bus (demo_world line_low) = Some (emit (Delay_us 5) (demo_world line_low))
   \<and> iic_start (Some demo_bus) (demo_world line_low)
       = Some (IIC_OK, Some (demo_bus\<lparr>bus_busy := 1\<rparr>),
               after (start_events demo_bus) 0 (demo_world line_low))
   \<and> delays_of (start_events demo_bus) = [5, 5]
   \<and> iic_set_speed (Some demo_bus) 0 = Some (demo_bus\<lparr>speed_khz := 0\<rparr>)
   \<and> \<not> iic_defined (demo_bus\<lparr>speed_khz := 0\<rparr>)
   \<and> iic_start (Some (demo_bus\<lparr>speed_khz := 0\<rparr>)) (demo_world line_low) = None
   \<and> iic_write (Some (demo_bus\<lparr>speed_khz := 0\<rparr>)) AHT21_ADDR (Some [AHT21_CMD_SOFT_RESET]) 1
        (demo_world line_low) = None
   \<and> iic_defined polled_bus \<and> \<not> delay_us (hal_ops polled_bus) \<and> speed_khz polled_bus = 0
   \<and> iic_delay polled_bus (demo_world line_low) = Some (demo_world line_low)
   \<and> iic_stop (Some polled_bus) (demo_world line_low)
       = Some (IIC_OK, Some (polled_bus\<lparr>bus_busy := 0\<rparr>),
               after (stop_events polled_bus) 0 (demo_world line_low))
   \<and> delays_of (stop_events polled_bus) = []
   \<and> \<not> iic_defined bare_bus
   \<and> iic_init (Some bare_bus) (Some (hal_ops bare_bus)) (demo_world line_low)
       = Some (Some bare_bus, after [Set_sda 1, Set_scl 1] 0 (demo_world line_low))
   \<and> iic_start (Some bare_bus) (demo_world line_low) = None"
proof -
  note demo = half_period_delay_needs_nonzero_speed
      [of demo_bus "demo_world line_low" 0 0 1 AHT21_ADDR "[AHT21_CMD_SOFT_RESET]" 0
          bare_bus "hal_ops bare_bus"]
  note stalled = half_period_delay_needs_nonzero_speed
      [of "demo_bus\<lparr>speed_khz := 0\<rparr>" "demo_world line_low" 0 0 1 AHT21_ADDR
          "[AHT21_CMD_SOFT_RESET]" 0 bare_bus "hal_ops bare_bus"]
  note polled = half_period_delay_needs_nonzero_speed
      [of polled_bus "demo_world line_low" 0 0 1 AHT21_ADDR "[AHT21_CMD_SOFT_RESET]" 0
          bare_bus "hal_ops bare_bus"]
  note bare = half_period_delay_needs_nonzero_speed
      [of bare_bus "demo_world line_low" 0 0 1 AHT21_ADDR "[AHT21_CMD_SOFT_RESET]" 0
          bare_bus "hal_ops bare_bus"]
  have hooks: "delay_us (hal_ops demo_bus)" "speed_khz demo_bus = 100"
    "\<not> delay_us (hal_ops polled_bus)" "speed_khz polled_bus = 0"
    by (simp_all add: demo_bus_def demo_ops_def polled_bus_def)
  have five: "max (500 div speed_khz demo_bus) 1 = 5"
    by (simp add: hooks)
  have d1: "iic_delay demo_bus (demo_world line_low) = Some (emit (Delay_us 5) (demo_world line_low))"
    using demo hooks five by simp
  have d2: "iic_start (Some demo_bus) (demo_world line_low)
       = Some (IIC_OK, Some (demo_bus\<lparr>bus_busy := 1\<rparr>),
               after (start_events demo_bus) 0 (demo_world line_low))"
    "delays_of (start_events demo_bus) = [5, 5]"
    using demo hooks five by (simp_all add: eval_nat_numeral)
  have s1: "iic_set_speed (Some demo_bus) 0 = Some (demo_bus\<lparr>speed_khz := 0\<rparr>)"
    using demo by simp
  have s2: "iic_start (Some (demo_bus\<lparr>speed_khz := 0\<rparr>)) (demo_world line_low) = None"
    "iic_write (Some (demo_bus\<lparr>speed_khz := 0\<rparr>)) AHT21_ADDR (Some [AHT21_CMD_SOFT_RESET]) 1
        (demo_world line_low) = None"
    using stalled by simp_all
  have p1: "iic_delay polled_bus (demo_world line_low) = Some (demo_world line_low)"
    "iic_stop (Some polled_bus) (demo_world line_low)
       = Some (IIC_OK, Some (polled_bus\<lparr>bus_busy := 0\<rparr>),
               after (stop_events polled_bus) 0 (demo_world line_low))"
    "delays_of (stop_events polled_bus) = []"
    using polled hooks by simp_all
  have b1: "iic_init (Some bare_bus) (Some (hal_ops bare_bus)) (demo_world line_low)
       = Some (Some bare_bus, after [Set_sda 1, Set_scl 1] 0 (demo_world line_low))"
    "iic_start (Some bare_bus) (demo_world line_low) = None"
    using bare by (simp_all add: bare_bus_def)
  show ?thesis
    using d1 d2 s1 s2 p1 b1 hooks by simp
qed


text \<open>
  The claim as stated fails on a handle whose platform installs no \<open>delay_us\<close> hook: at
  speed 0 its start, stop and byte transfers are all defined, because \<open>iic_delay\<close>
  tests the hook before it divides.
\<close>

theorem speed_zero_is_defined_without_delay_hook:
  "speed_khz polled_bus = 0
   \<and> iic_delay polled_bus (demo_world line_low) = Some (demo_world line_low)
   \<and> iic_start (Some polled_bus) (demo_world line_low)
       = Some (IIC_OK, Some (polled_bus\<lparr>bus_busy := 1\<rparr>),
               after (start_events polled_bus) 0 (demo_world line_low))
   \<and> iic_stop (Some polled_bus) (demo_world line_low)
       = Some (IIC_OK, Some (polled_bus\<lparr>bus_busy := 0\<rparr>),
               after (stop_events polled_bus) 0 (demo_world line_low))
   \<and> iic_write_byte (Some polled_bus) 0x70 (demo_world line_low)
       = Some (IIC_OK, after (write_byte_events polled_bus 0x70) 1 (demo_world line_low))
   \<and> iic_read_byte (Some polled_bus) True 0 (demo_world line_low)
       = Some (IIC_OK, Some (rx_byte line_low 0),
               after (read_byte_events polled_bus 0) 8 (demo_world line_low))"
  by (simp add: iic_start_after iic_stop_after iic_write_byte_after iic_read_byte_after
      iic_delay_def)
     (simp add: polled_bus_def line_low_def)



section \<open>Protocol driver: the state machine\<close>

lemma command_lengths [simp]:
  "tx_bytes a [x] 1 = [push_bit 1 a, x]"
  by (simp add: tx_bytes_def)

lemma aht21_trigger_measure_run:
  assumes "iic h = Some b" and "iic_defined b" and "state h \<noteq> AHT21_STATE_WAIT_MEASURE"
  shows "aht21_trigger_measure (Some h) w =
     (let k = acked_prefix (sda_in w) (sda_pos w) 4;
          sent = take (Suc k) [push_bit 1 AHT21_ADDR, AHT21_CMD_TRIGGER, 0x33, 0x00]
      in Some (if k < 4 then AHT21_ERR_IIC else AHT21_OK,
               Some (if k < 4 then h\<lparr>iic := Some (b\<lparr>bus_busy := 0\<rparr>)\<rparr>
                     else h\<lparr>iic := Some (b\<lparr>bus_busy := 0\<rparr>),
                            state := AHT21_STATE_WAIT_MEASURE, measure_ticks := 0\<rparr>),
               after (start_events b @ concat (map (write_byte_events b) sent) @ stop_events b)
                 (length sent) w))"
proof -
  define k where "k = acked_prefix (sda_in w) (sda_pos w) 4"
  define sent where "sent = take (Suc k) [push_bit 1 AHT21_ADDR, AHT21_CMD_TRIGGER, 0x33, 0x00]"
  have bytes: "tx_bytes AHT21_ADDR [AHT21_CMD_TRIGGER, 0x33, 0x00] 3
      = [push_bit 1 AHT21_ADDR, AHT21_CMD_TRIGGER, 0x33, 0x00]"
    by (simp add: tx_bytes_def)
  have four: "length [push_bit 1 AHT21_ADDR, AHT21_CMD_TRIGGER, 0x33, 0x00] = 4"
    by simp
  have wr: "iic_write (Some b) AHT21_ADDR (Some [AHT21_CMD_TRIGGER, 0x33, 0x00]) 3 w
      = Some (if k < 4 then IIC_ERR_NACK else IIC_OK, Some (b\<lparr>bus_busy := 0\<rparr>),
              after (start_events b @ concat (map (write_byte_events b) sent) @ stop_events b)
                (length sent) w)"
    using iic_write_run [of b 3 "[AHT21_CMD_TRIGGER, 0x33, 0x00]" AHT21_ADDR w,
        unfolded bytes four, folded k_def, folded sent_def] assms(2)
    by simp
  have "aht21_trigger_measure (Some h) w =
      Some (if k < 4 then AHT21_ERR_IIC else AHT21_OK,
            Some (if k < 4 then h\<lparr>iic := Some (b\<lparr>bus_busy := 0\<rparr>)\<rparr>
                  else h\<lparr>iic := Some (b\<lparr>bus_busy := 0\<rparr>),
                         state := AHT21_STATE_WAIT_MEASURE, measure_ticks := 0\<rparr>),
            after (start_events b @ concat (map (write_byte_events b) sent) @ stop_events b)
              (length sent) w)"
    using assms(1,3) by (cases "k < 4") (simp_all add: aht21_trigger_measure_def wr)
  then show ?thesis
    unfolding Let_def k_def [symmetric] sent_def [symmetric] .
qed

lemma aht21_soft_reset_run:
  assumes "iic h = Some b" and "iic_defined b"
  shows "aht21_soft_reset (Some h) w =
     (let k = acked_prefix (sda_in w) (sda_pos w) 2;
          sent = take (Suc k) [push_bit 1 AHT21_ADDR, AHT21_CMD_SOFT_RESET]
      in Some (if k < 2 then AHT21_ERR_IIC else AHT21_OK,
               Some (if k < 2 then h\<lparr>iic := Some (b\<lparr>bus_busy := 0\<rparr>)\<rparr>
                     else h\<lparr>iic := Some (b\<lparr>bus_busy := 0\<rparr>), state := AHT21_STATE_IDLE\<rparr>),
               after (start_events b @ concat (map (write_byte_events b) sent) @ stop_events b
                      @ (if k < 2 then [] else settle_events b 20))
                 (length sent) w))"
proof -
  define k where "k = acked_prefix (sda_in w) (sda_pos w) 2"
  define sent where "sent = take (Suc k) [push_bit 1 AHT21_ADDR, AHT21_CMD_SOFT_RESET]"
  have bytes: "tx_bytes AHT21_ADDR [AHT21_CMD_SOFT_RESET] 1
      = [push_bit 1 AHT21_ADDR, AHT21_CMD_SOFT_RESET]"
    by (simp add: tx_bytes_def)
  have two: "length [push_bit 1 AHT21_ADDR, AHT21_CMD_SOFT_RESET] = 2"
    by simp
  have wr: "iic_write (Some b) AHT21_ADDR (Some [AHT21_CMD_SOFT_RESET]) 1 w
      = Some (if k < 2 then IIC_ERR_NACK else IIC_OK, Some (b\<lparr>bus_busy := 0\<rparr>),
              after (start_events b @ concat (map (write_byte_events b) sent) @ stop_events b)
                (length sent) w)"
    using iic_write_run [of b 1 "[AHT21_CMD_SOFT_RESET]" AHT21_ADDR w,
        unfolded bytes two, folded k_def, folded sent_def] assms(2)
    by simp
  have "aht21_soft_reset (Some h) w =
      Some (if k < 2 then AHT21_ERR_IIC else AHT21_OK,
            Some (if k < 2 then h\<lparr>iic := Some (b\<lparr>bus_busy := 0\<rparr>)\<rparr>
                  else h\<lparr>iic := Some (b\<lparr>bus_busy := 0\<rparr>), state := AHT21_STATE_IDLE\<rparr>),
            after (start_events b @ concat (map (write_byte_events b) sent) @ stop_events b
                   @ (if k < 2 then [] else settle_events b 20))
              (length sent) w)"
    using assms(1)
    by (cases "k < 2") (simp_all add: aht21_soft_reset_def wr settle_events_def)
  then show ?thesis
    unfolding Let_def k_def [symmetric] sent_def [symmetric] .
qed

lemma aht21_trigger_measure_states:
  assumes "aht21_trigger_measure (Some h) w = Some (r, Some h', w')"
  shows "state h' = (if r = AHT21_OK then AHT21_STATE_WAIT_MEASURE else state h)"
  using assms
  by (auto simp add: aht21_trigger_measure_def Let_def
      split: Option.bind_splits prod.splits if_splits)

lemma aht21_read_data_states:
  assumes "aht21_read_data (Some h) w = Some (r, Some h', w')"
  shows "state h' = (if r = AHT21_OK then AHT21_STATE_READY else state h)"
  using assms
  by (auto simp add: aht21_read_data_def aht21_check_status_def Let_def
      split: Option.bind_splits prod.splits if_splits)

lemma aht21_soft_reset_states:
  assumes "aht21_soft_reset (Some h) w = Some (r, Some h', w')"
  shows "state h' = (if r = AHT21_OK then AHT21_STATE_IDLE else state h)"
  using assms
  by (auto simp add: aht21_soft_reset_def Let_def
      split: Option.bind_splits prod.splits if_splits)

lemma aht21_ticks_states:
  assumes "aht21_ticks (Some h) w = Some (Some h', w')"
  shows "state h' = state h \<or> state h' = AHT21_STATE_IDLE
         \<or> state h' = AHT21_STATE_WAIT_MEASURE \<or> state h' = AHT21_STATE_READY"
proof (cases "state h")
  case AHT21_STATE_IDLE
  with assms obtain r where "aht21_trigger_measure (Some h) w = Some (r, Some h', w')"
    by (auto simp add: aht21_ticks_def split: Option.bind_splits)
  from aht21_trigger_measure_states [OF this] show ?thesis by (simp split: if_splits)
next
  case AHT21_STATE_INIT
  with assms show ?thesis by (auto simp add: aht21_ticks_def)
next
  case AHT21_STATE_WAIT_MEASURE
  let ?h = "h\<lparr>measure_ticks := measure_ticks h + 1\<rparr>"
  show ?thesis
  proof (cases "80 div 5 \<le> measure_ticks ?h")
    case False
    with assms AHT21_STATE_WAIT_MEASURE show ?thesis
      by (auto simp add: aht21_ticks_def Let_def)
  next
    case True
    with assms AHT21_STATE_WAIT_MEASURE obtain r g
      where rd: "aht21_read_data (Some ?h) w = Some (r, g, w')"
        and out: "Some h' = (if r = AHT21_OK
                   then map_option (\<lambda>h. h\<lparr>state := AHT21_STATE_READY\<rparr>) g else g)"
      by (auto simp add: aht21_ticks_def Let_def split: Option.bind_splits if_splits)
    show ?thesis
    proof (cases "r = AHT21_OK")
      case True
      with out show ?thesis by (cases g) auto
    next
      case False
      with out have "g = Some h'" by simp
      with rd aht21_read_data_states [of ?h w r h' w'] False AHT21_STATE_WAIT_MEASURE
      show ?thesis by simp
    qed
  qed
next
  case AHT21_STATE_READY
  with assms show ?thesis
    by (auto simp add: aht21_ticks_def Let_def split: if_splits)
next
  case AHT21_STATE_ERROR
  with assms obtain r where "aht21_soft_reset (Some h) w = Some (r, Some h', w')"
    by (auto simp add: aht21_ticks_def split: Option.bind_splits)
  from aht21_soft_reset_states [OF this] show ?thesis by (simp split: if_splits)
qed

lemma aht21_ticks_error_run:
  assumes "state h = AHT21_STATE_ERROR" and "iic h = Some b" and "iic_defined b"
  shows "\<exists>h' w'. aht21_ticks (Some h) w = Some (Some h', w')
           \<and> state h' = (if acked_prefix (sda_in w) (sda_pos w) 2 = 2
                          then AHT21_STATE_IDLE else AHT21_STATE_ERROR)"
proof -
  define k where "k = acked_prefix (sda_in w) (sda_pos w) 2"
  have le: "k \<le> 2" unfolding k_def by (rule acked_prefix_le)
  note run = aht21_soft_reset_run [OF assms(2,3), of w, unfolded Let_def, folded k_def]
  show ?thesis
  proof (cases "k < 2")
    case True
    with run assms(1) show ?thesis
      unfolding k_def [symmetric] by (simp add: aht21_ticks_def)
  next
    case False
    with le have "k = 2" by simp
    with run show ?thesis
      unfolding k_def [symmetric] by (simp add: aht21_ticks_def assms(1))
  qed
qed


section \<open>Protocol driver: the ERROR state\<close>


lemma aht21_read_data_defined:
  assumes "iic h = Some b" and "iic_defined b" and "length (raw_data h) = 7"
  shows "\<exists>r g v. aht21_read_data (Some h) w = Some (r, Some g, v)"
proof (cases "sda_in w (sda_pos w) = 0")
  case False
  with assms show ?thesis
    by (simp add: aht21_read_data_def aht21_check_status_nack)
next
  case True
  let ?h1 = "h\<lparr>iic := Some (b\<lparr>bus_busy := 0\<rparr>)\<rparr>"
  let ?w1 = "after (status_events b) 9 w"
  show ?thesis
  proof (cases "rx_byte (sda_in w) (Suc (sda_pos w)) AND AHT21_STATUS_BUSY = 0")
    case False
    with assms True show ?thesis by (simp add: aht21_read_data_busy)
  next
    case idle: True
    show ?thesis
    proof (cases "sda_in w (sda_pos w + 9) = 0")
      case True
      with assms idle \<open>sda_in w (sda_pos w) = 0\<close> show ?thesis
        by (simp add: aht21_read_data_ok)
    next
      case False
      have "iic_read (Some (b\<lparr>bus_busy := 0\<rparr>)) AHT21_ADDR (Some (raw_data h)) 7 ?w1 =
          Some (IIC_ERR_NACK, Some (b\<lparr>bus_busy := 0\<rparr>), Some (raw_data h),
                after (start_events b @ write_byte_events b (push_bit 1 AHT21_ADDR OR 0x01)
                       @ stop_events b) (Suc 0) ?w1)"
        using iic_read_nack [of "b\<lparr>bus_busy := 0\<rparr>" 7 ?w1 AHT21_ADDR "raw_data h"] assms False
        by simp
      with assms idle \<open>sda_in w (sda_pos w) = 0\<close> show ?thesis
        by (simp add: aht21_read_data_def aht21_check_status_ok)
    qed
  qed
qed

lemma aht21_trigger_measure_defined:
  assumes "iic h = Some b" and "iic_defined b"
  shows "\<exists>r g v. aht21_trigger_measure (Some h) w = Some (r, Some g, v)"
proof (cases "state h = AHT21_STATE_WAIT_MEASURE")
  case True
  then show ?thesis by (simp add: aht21_trigger_measure_def)
next
  case False
  from aht21_trigger_measure_run [OF assms False, of w, unfolded Let_def]
  show ?thesis by blast
qed

lemma aht21_soft_reset_defined:
  assumes "iic h = Some b" and "iic_defined b"
  shows "\<exists>r g v. aht21_soft_reset (Some h) w = Some (r, Some g, v)"
  using aht21_soft_reset_run [OF assms, of w, unfolded Let_def] by blast

lemma aht21_ticks_defined:
  assumes "iic h = Some b" and "iic_defined b" and "length (raw_data h) = 7"
  shows "\<exists>g v. aht21_ticks (Some h) w = Some (Some g, v)"
proof (cases "state h")
  case AHT21_STATE_IDLE
  with aht21_trigger_measure_defined [OF assms(1,2), of w] show ?thesis
    by (auto simp add: aht21_ticks_def)
next
  case AHT21_STATE_INIT
  then show ?thesis by (simp add: aht21_ticks_def)
next
  case AHT21_STATE_WAIT_MEASURE
  let ?h = "h\<lparr>measure_ticks := measure_ticks h + 1\<rparr>"
  obtain r g v where "aht21_read_data (Some ?h) w = Some (r, Some g, v)"
    using aht21_read_data_defined [of ?h b w] assms by auto
  with AHT21_STATE_WAIT_MEASURE show ?thesis
    by (auto simp add: aht21_ticks_def Let_def)
next
  case AHT21_STATE_READY
  then show ?thesis by (simp add: aht21_ticks_def Let_def)
next
  case AHT21_STATE_ERROR
  with aht21_soft_reset_defined [OF assms(1,2), of w] show ?thesis
    by (auto simp add: aht21_ticks_def)
qed


lemma aht21_trigger_measure_outcome:
  assumes "iic h = Some b" and "iic_defined b"
  shows "\<exists>g v. aht21_trigger_measure (Some h) w
            = Some (if state h = AHT21_STATE_WAIT_MEASURE then AHT21_ERR_BUSY
                    else trigger_outcome w, Some g, v)
          \<and> state g = (if state h \<noteq> AHT21_STATE_WAIT_MEASURE \<and> trigger_outcome w = AHT21_OK
                        then AHT21_STATE_WAIT_MEASURE else state h)"
proof (cases "state h = AHT21_STATE_WAIT_MEASURE")
  case True
  then show ?thesis by (simp add: aht21_trigger_measure_def)
next
  case False
  define k where "k = acked_prefix (sda_in w) (sda_pos w) 4"
  note run = aht21_trigger_measure_run [OF assms False, of w, unfolded Let_def, folded k_def]
  show ?thesis
  proof (cases "k < 4")
    case True
    with run False show ?thesis
      by (simp add: trigger_outcome_def k_def [symmetric])
  next
    case nk: False
    with run False show ?thesis
      by (simp add: trigger_outcome_def k_def [symmetric])
  qed
qed

lemma aht21_soft_reset_outcome:
  assumes "iic h = Some b" and "iic_defined b"
  shows "\<exists>g v. aht21_soft_reset (Some h) w = Some (reset_outcome w, Some g, v)
          \<and> state g = (if reset_outcome w = AHT21_OK then AHT21_STATE_IDLE else state h)"
proof -
  define k where "k = acked_prefix (sda_in w) (sda_pos w) 2"
  note run = aht21_soft_reset_run [OF assms, of w, unfolded Let_def, folded k_def]
  show ?thesis
  proof (cases "k < 2")
    case True
    with run show ?thesis
      by (simp add: reset_outcome_def k_def [symmetric])
  next
    case False
    with run show ?thesis
      by (simp add: reset_outcome_def k_def [symmetric])
  qed
qed

lemma aht21_read_data_outcome:
  assumes "iic h = Some b" and "iic_defined b" and "length (raw_data h) = 7"
  shows "\<exists>g v. aht21_read_data (Some h) w = Some (read_outcome w, Some g, v)
          \<and> state g = (if read_outcome w = AHT21_OK then AHT21_STATE_READY else state h)"
proof (cases "sda_in w (sda_pos w) = 0")
  case False
  with assms show ?thesis
    by (simp add: aht21_read_data_def aht21_check_status_nack read_outcome_def)
next
  case True
  let ?w1 = "after (status_events b) 9 w"
  show ?thesis
  proof (cases "rx_byte (sda_in w) (Suc (sda_pos w)) AND AHT21_STATUS_BUSY = 0")
    case False
    with assms True show ?thesis by (simp add: aht21_read_data_busy read_outcome_def)
  next
    case idle: True
    show ?thesis
    proof (cases "sda_in w (sda_pos w + 9) = 0")
      case ack: True
      with assms idle True show ?thesis
        by (simp add: aht21_read_data_ok read_outcome_def)
    next
      case False
      have "iic_read (Some (b\<lparr>bus_busy := 0\<rparr>)) AHT21_ADDR (Some (raw_data h)) 7 ?w1 =
          Some (IIC_ERR_NACK, Some (b\<lparr>bus_busy := 0\<rparr>), Some (raw_data h),
                after (start_events b @ write_byte_events b (push_bit 1 AHT21_ADDR OR 0x01)
                       @ stop_events b) (Suc 0) ?w1)"
        using iic_read_nack [of "b\<lparr>bus_busy := 0\<rparr>" 7 ?w1 AHT21_ADDR "raw_data h"] assms False
        by simp
      with assms idle True False show ?thesis
        by (simp add: aht21_read_data_def aht21_check_status_ok read_outcome_def)
    qed
  qed
qed

lemma aht21_init_null:
  "aht21_init None i w = Some (AHT21_ERR_INVALID_PARAM, None, w)"
  "aht21_init (Some h0) None w = Some (AHT21_ERR_INVALID_PARAM, Some h0, w)"
  by (simp_all add: aht21_init_def)

lemma aht21_init_states:
  assumes "aht21_init (Some h0) (Some b) w = Some (r, Some g, v)"
  shows "state g = (if r = AHT21_OK then AHT21_STATE_IDLE else AHT21_STATE_ERROR)"
  using assms
  by (auto simp add: aht21_init_def Let_def
      split: Option.bind_splits prod.splits if_splits)

lemma aht21_init_outcome:
  assumes "iic_defined b"
  shows "\<exists>g v. aht21_init (Some h0) (Some b) w = Some (init_outcome w, Some g, v)
          \<and> state g = (if init_outcome w = AHT21_OK then AHT21_STATE_IDLE
                        else AHT21_STATE_ERROR)"
proof -
  define w0 where "w0 = (if delay_ms (hal_ops b) then after [Delay_ms 40] 0 w else w)"
  define k where "k = acked_prefix (sda_in w) (sda_pos w) 4"
  define sent where "sent = take (Suc k) [push_bit 1 AHT21_ADDR, AHT21_CMD_INIT, 0x08, 0x00]"
  define w1 where "w1 = after (start_events b @ concat (map (write_byte_events b) sent)
                                @ stop_events b) (length sent) w0"
  define hh where "hh = \<lparr>iic = Some (b\<lparr>bus_busy := 0\<rparr>), state = AHT21_STATE_INIT,
      measure_ticks = 0, raw_data = replicate 7 0, temperature = 0, humidity = 0,
      measure_interval = 100\<rparr>"
  have w0_fields: "sda_in w0 = sda_in w" "sda_pos w0 = sda_pos w"
    by (simp_all add: w0_def)
  have pre: "(if delay_ms (hal_ops b) then hal_delay_ms 40 w else Some w) = Some w0"
    by (simp add: w0_def)
  have bytes: "tx_bytes AHT21_ADDR [AHT21_CMD_INIT, 0x08, 0x00] 3
      = [push_bit 1 AHT21_ADDR, AHT21_CMD_INIT, 0x08, 0x00]"
    by (simp add: tx_bytes_def)
  have four: "length [push_bit 1 AHT21_ADDR, AHT21_CMD_INIT, 0x08, 0x00] = 4"
    by simp
  have wr: "iic_write (Some b) AHT21_ADDR (Some [AHT21_CMD_INIT, 0x08, 0x00]) 3 w0
      = Some (if k < 4 then IIC_ERR_NACK else IIC_OK, Some (b\<lparr>bus_busy := 0\<rparr>), w1)"
    using iic_write_run [of b 3 "[AHT21_CMD_INIT, 0x08, 0x00]" AHT21_ADDR w0,
        unfolded bytes four w0_fields, folded k_def, folded sent_def, folded w1_def] assms
    by simp
  have le: "k \<le> 4" unfolding k_def by (rule acked_prefix_le)
  show ?thesis
  proof (cases "k < 4")
    case True
    then have "aht21_init (Some h0) (Some b) w
        = Some (AHT21_ERR_IIC, Some (hh\<lparr>state := AHT21_STATE_ERROR\<rparr>), w1)"
      unfolding aht21_init_def by (simp add: pre wr Let_def hh_def)
    with True show ?thesis
      by (simp add: init_outcome_def k_def [symmetric])
  next
    case False
    with le have k4: "k = 4" by simp
    then have len: "length sent = 4" by (simp add: sent_def)
    define w2 where "w2 = (if delay_ms (hal_ops b) then after [Delay_ms 10] 0 w1 else w1)"
    have pre2: "(if delay_ms (hal_ops b) then hal_delay_ms 10 w1 else Some w1) = Some w2"
      by (simp add: w2_def)
    have w2_fields: "sda_in w2 = sda_in w" "sda_pos w2 = sda_pos w + 4"
      by (simp_all add: w2_def w1_def len w0_fields)
    have hi: "iic hh = Some (b\<lparr>bus_busy := 0\<rparr>)" by (simp add: hh_def)
    have bd: "iic_defined (b\<lparr>bus_busy := 0\<rparr>)" using assms by simp
    have head: "aht21_init (Some h0) (Some b) w = do {
        (r, status, h, w) \<leftarrow> aht21_check_status hh 0 w2;
        if r \<noteq> AHT21_OK then
          Some (AHT21_ERR_IIC, Some (h\<lparr>state := AHT21_STATE_ERROR\<rparr>), w)
        else if status AND AHT21_STATUS_CALIBRATED = 0 then
          Some (AHT21_ERR_NOT_INIT, Some (h\<lparr>state := AHT21_STATE_ERROR\<rparr>), w)
        else Some (AHT21_OK, Some (h\<lparr>state := AHT21_STATE_IDLE\<rparr>), w) }"
      unfolding aht21_init_def using False by (simp add: pre wr Let_def hh_def pre2)
    show ?thesis
    proof (cases "sda_in w (sda_pos w + 4) = 0")
      case nack: False
      then have "sda_in w2 (sda_pos w2) \<noteq> 0" by (simp add: w2_fields)
      from aht21_check_status_nack [OF hi bd this, of 0] False nack show ?thesis
        unfolding head by (simp add: init_outcome_def k_def [symmetric])
    next
      case ack: True
      then have "sda_in w2 (sda_pos w2) = 0" by (simp add: w2_fields)
      from aht21_check_status_ok [OF hi bd this, of 0] False ack show ?thesis
        unfolding head
        by (simp add: init_outcome_def k_def [symmetric] w2_fields
            add.commute [of 5 "sda_pos w"])
    qed
  qed
qed

lemma aht21_read_blocking_states:
  assumes "aht21_read_blocking (Some h) t u w = Some (r, x, Some h', w')"
  shows "state h' = state h \<or> state h' = AHT21_STATE_WAIT_MEASURE
         \<or> state h' = AHT21_STATE_READY"
proof (cases "\<not> t \<or> \<not> u")
  case True
  with assms show ?thesis by (auto simp add: aht21_read_blocking_def)
next
  case False
  then have tu: "t" "u" by simp_all
  from assms tu obtain r1 g1 w1 where
    tr: "aht21_trigger_measure (Some h) w = Some (r1, g1, w1)"
    by (auto simp add: aht21_read_blocking_def split: Option.bind_splits)
  show ?thesis
  proof (cases "r1 = AHT21_OK")
    case False
    with assms tu tr have "g1 = Some h'" by (simp add: aht21_read_blocking_def)
    with tr aht21_trigger_measure_states [of h w r1 h' w1] show ?thesis
      by (simp split: if_splits)
  next
    case True
    with assms tu tr obtain h1 r2 w2 where
      g1: "g1 = Some h1" and rd: "aht21_read_data (Some h1) w2 = Some (r2, Some h', w')"
      by (auto simp add: aht21_read_blocking_def split: Option.bind_splits if_splits)
    from tr g1 True aht21_trigger_measure_states [of h w r1 h1 w1]
    have "state h1 = AHT21_STATE_WAIT_MEASURE" by simp
    with aht21_read_data_states [OF rd] show ?thesis by (simp split: if_splits)
  qed
qed

lemma aht21_read_blocking_defined:
  assumes "iic h = Some b" and "iic_defined b" and "length (raw_data h) = 7"
  shows "\<exists>r x g v. aht21_read_blocking (Some h) True True w = Some (r, x, Some g, v)"
proof (cases "state h = AHT21_STATE_WAIT_MEASURE")
  case True
  then show ?thesis by (simp add: aht21_read_blocking_def aht21_trigger_measure_def)
next
  case False
  define k where "k = acked_prefix (sda_in w) (sda_pos w) 4"
  note run = aht21_trigger_measure_run [OF assms(1,2) False, of w, unfolded Let_def, folded k_def]
  show ?thesis
  proof (cases "k < 4")
    case True
    with run show ?thesis by (simp add: aht21_read_blocking_def)
  next
    case nk: False
    define g1 where "g1 = h\<lparr>iic := Some (b\<lparr>bus_busy := 0\<rparr>),
        state := AHT21_STATE_WAIT_MEASURE, measure_ticks := 0\<rparr>"
    define w1 where "w1 = after (start_events b
        @ concat (map (write_byte_events b)
            (take (Suc k) [push_bit 1 AHT21_ADDR, AHT21_CMD_TRIGGER, 0x33, 0x00]))
        @ stop_events b)
        (length (take (Suc k) [push_bit 1 AHT21_ADDR, AHT21_CMD_TRIGGER, 0x33, 0x00])) w"
    have tr: "aht21_trigger_measure (Some h) w = Some (AHT21_OK, Some g1, w1)"
      using run nk unfolding g1_def w1_def by simp
    have c: "iic g1 = Some (b\<lparr>bus_busy := 0\<rparr>)" "iic_defined (b\<lparr>bus_busy := 0\<rparr>)"
      "length (raw_data g1) = 7"
      using assms by (simp_all add: g1_def)
    define w2 where "w2 = (if delay_ms (hal_ops b) then after [Delay_ms 80] 0 w1 else w1)"
    have pre: "(if delay_ms (hal_ops b) then hal_delay_ms 80 w1 else Some w1) = Some w2"
      by (simp add: w2_def)
    obtain r2 g2 v where rd: "aht21_read_data (Some g1) w2 = Some (r2, Some g2, v)"
      using aht21_read_data_defined [OF c, of w2] by blast
    have "aht21_read_blocking (Some h) True True w =
        (if r2 \<noteq> AHT21_OK then Some (r2, None, Some g2, v)
         else Some (AHT21_OK, Some (temperature g2, humidity g2), Some g2, v))"
      unfolding aht21_read_blocking_def using tr c(1) rd pre by simp
    then show ?thesis by (cases "r2 = AHT21_OK") simp_all
  qed
qed

lemma rx_byte_line_calibrated: "rx_byte line_calibrated 5 = 0x08"
proof -
  have "rx_byte line_calibrated (Suc (Suc (Suc (Suc (Suc 0))))) = 0x08"
    by (simp add: rx_byte_def line_calibrated_def eval_nat_numeral)
  then show ?thesis by (simp add: eval_nat_numeral)
qed

lemma rx_byte_line_low: "rx_byte line_low p = 0"
proof -
  have "rx_acc line_low q n 0 = 0" for q n
    by (induction n arbitrary: q) (simp_all add: line_low_def)
  then show ?thesis by (simp add: rx_byte_def)
qed

lemma demo_acks:
  "acked_prefix line_high 0 4 = 0" "acked_prefix line_high 0 2 = 0"
  "acked_prefix line_low 0 4 = 4" "acked_prefix line_low 0 2 = 2"
  "acked_prefix line_calibrated 0 4 = 4"
  by (simp_all add: line_high_def line_low_def line_calibrated_def eval_nat_numeral)

lemma demo_outcomes:
  "init_outcome (demo_world line_high) = AHT21_ERR_IIC"
  "init_outcome (demo_world line_low) = AHT21_ERR_NOT_INIT"
  "init_outcome (demo_world line_calibrated) = AHT21_OK"
  "trigger_outcome (demo_world line_high) = AHT21_ERR_IIC"
  "trigger_outcome (demo_world line_low) = AHT21_OK"
  "read_outcome (demo_world line_high) = AHT21_ERR_IIC"
  "reset_outcome (demo_world line_low) = AHT21_OK"
  "reset_outcome (demo_world line_high) = AHT21_ERR_IIC"
  by (simp_all add: init_outcome_def trigger_outcome_def read_outcome_def reset_outcome_def
      demo_acks rx_byte_line_calibrated rx_byte_line_low AHT21_STATUS_CALIBRATED_def)
     (simp_all add: line_high_def line_low_def line_calibrated_def)


text \<open>
  C3, as the code has it. No step of the driver sets the state to ERROR: from a state
  other than ERROR, \<open>aht21_trigger_measure\<close>, \<open>aht21_read_data\<close>,
  \<open>aht21_soft_reset\<close>, \<open>aht21_ticks\<close> and \<open>aht21_read_blocking\<close> all end in a
  state other than ERROR. On a handle bound to a bus whose primitives are defined each of
  them returns, and the result follows from what the device answers: a trigger that is not
  refused as BUSY returns the bus error when one of its four bytes is not acknowledged and
  OK otherwise; a read returns the bus error when the status poll or the data read is not
  acknowledged, BUSY when the status byte has the busy bit, and OK otherwise; a soft reset
  returns the bus error when one of its two bytes is not acknowledged and OK otherwise.
  Whenever the result is not OK the state is the one before the call; on OK a trigger ends
  in WAIT_MEASURE, a read in READY and a soft reset in IDLE, from ERROR as from any other
  state. ERROR is assigned by \<open>aht21_init\<close> alone: called with a handle and a bus it ends
  in ERROR exactly when it returns an error (the bus error when the init command or the
  status poll is not acknowledged, NOT_INIT when the status byte lacks the calibrated bit)
  and in IDLE when it returns OK; called with a null argument it returns INVALID_PARAM and
  writes nothing. In ERROR, \<open>aht21_ticks\<close> performs the soft reset: the state becomes
  IDLE when the address and the reset command are both acknowledged, and stays ERROR
  otherwise.
\<close>

theorem error_state_is_never_entered_by_a_step:
  "(state h \<noteq> AHT21_STATE_ERROR \<longrightarrow>
      (aht21_trigger_measure (Some h) w = Some (r, Some h', w') \<longrightarrow>
         state h' \<noteq> AHT21_STATE_ERROR \<and> (r \<noteq> AHT21_OK \<longrightarrow> state h' = state h))
      \<and> (aht21_read_data (Some h) w = Some (r, Some h', w') \<longrightarrow>
           state h' \<noteq> AHT21_STATE_ERROR \<and> (r \<noteq> AHT21_OK \<longrightarrow> state h' = state h))
      \<and> (aht21_soft_reset (Some h) w = Some (r, Some h', w') \<longrightarrow>
           state h' \<noteq> AHT21_STATE_ERROR)
      \<and> (aht21_ticks (Some h) w = Some (Some h', w') \<longrightarrow> state h' \<noteq> AHT21_STATE_ERROR)
      \<and> (aht21_read_blocking (Some h) t u w = Some (r, x, Some h', w') \<longrightarrow>
           state h' \<noteq> AHT21_STATE_ERROR))
   \<and> (state h = AHT21_STATE_ERROR \<and> iic h = Some b \<and> iic_defined b \<longrightarrow>
        (\<exists>g v. aht21_ticks (Some h) w = Some (Some g, v)
           \<and> state g = (if acked_prefix (sda_in w) (sda_pos w) 2 = 2
                         then AHT21_STATE_IDLE else AHT21_STATE_ERROR)))
   \<and> (iic h = Some b \<and> iic_defined b \<and> length (raw_data h) = 7 \<longrightarrow>
        (\<exists>g v. aht21_trigger_measure (Some h) w
                  = Some (if state h = AHT21_STATE_WAIT_MEASURE then AHT21_ERR_BUSY
                          else trigger_outcome w, Some g, v)
                \<and> state g = (if state h \<noteq> AHT21_STATE_WAIT_MEASURE
                                  \<and> trigger_outcome w = AHT21_OK
                              then AHT21_STATE_WAIT_MEASURE else state h))
        \<and> (\<exists>g v. aht21_read_data (Some h) w = Some (read_outcome w, Some g, v)
                \<and> state g = (if read_outcome w = AHT21_OK then AHT21_STATE_READY
                              else state h))
        \<and> (\<exists>g v. aht21_soft_reset (Some h) w = Some (reset_outcome w, Some g, v)
                \<and> state g = (if reset_outcome w = AHT21_OK then AHT21_STATE_IDLE
                              else state h))
        \<and> (\<exists>g v. aht21_ticks (Some h) w = Some (Some g, v))
        \<and> (\<exists>r x g v. aht21_read_blocking (Some h) True True w = Some (r, x, Some g, v)))
   \<and> (aht21_init (Some h0) (Some b) w = Some (r, Some h', w') \<longrightarrow>
        state h' = (if r = AHT21_OK then AHT21_STATE_IDLE else AHT21_STATE_ERROR))
   \<and> (iic_defined b \<longrightarrow>
        (\<exists>g v. aht21_init (Some h0) (Some b) w = Some (init_outcome w, Some g, v)
           \<and> state g = (if init_outcome w = AHT21_OK then AHT21_STATE_IDLE
                         else AHT21_STATE_ERROR)))
   \<and> aht21_init None (Some b) w = Some (AHT21_ERR_INVALID_PARAM, None, w)
   \<and> aht21_init (Some h0) None w = Some (AHT21_ERR_INVALID_PARAM, Some h0, w)"
proof (intro conjI impI)
  assume ne: "state h \<noteq> AHT21_STATE_ERROR"
  {
    assume "aht21_trigger_measure (Some h) w = Some (r, Some h', w')"
    from aht21_trigger_measure_states [OF this] ne
    show "state h' \<noteq> AHT21_STATE_ERROR" by (simp split: if_splits)
  }
  {
    assume "aht21_trigger_measure (Some h) w = Some (r, Some h', w')" "r \<noteq> AHT21_OK"
    with aht21_trigger_measure_states [of h w r h' w']
    show "state h' = state h" by simp
  }
  {
    assume "aht21_read_data (Some h) w = Some (r, Some h', w')"
    from aht21_read_data_states [OF this] ne
    show "state h' \<noteq> AHT21_STATE_ERROR" by (simp split: if_splits)
  }
  {
    assume "aht21_read_data (Some h) w = Some (r, Some h', w')" "r \<noteq> AHT21_OK"
    with aht21_read_data_states [of h w r h' w']
    show "state h' = state h" by simp
  }
  {
    assume "aht21_soft_reset (Some h) w = Some (r, Some h', w')"
    from aht21_soft_reset_states [OF this] ne
    show "state h' \<noteq> AHT21_STATE_ERROR" by (simp split: if_splits)
  }
  {
    assume "aht21_ticks (Some h) w = Some (Some h', w')"
    from aht21_ticks_states [OF this] ne
    show "state h' \<noteq> AHT21_STATE_ERROR" by auto
  }
  {
    assume "aht21_read_blocking (Some h) t u w = Some (r, x, Some h', w')"
    from aht21_read_blocking_states [OF this] ne
    show "state h' \<noteq> AHT21_STATE_ERROR" by auto
  }
next
  assume "state h = AHT21_STATE_ERROR \<and> iic h = Some b \<and> iic_defined b"
  then show "\<exists>g v. aht21_ticks (Some h) w = Some (Some g, v)
           \<and> state g = (if acked_prefix (sda_in w) (sda_pos w) 2 = 2
                         then AHT21_STATE_IDLE else AHT21_STATE_ERROR)"
    using aht21_ticks_error_run [of h b w] by blast
next
  assume a: "iic h = Some b \<and> iic_defined b \<and> length (raw_data h) = 7"
  then have b: "iic h = Some b" "iic_defined b" "length (raw_data h) = 7" by simp_all
  show "\<exists>g v. aht21_trigger_measure (Some h) w
                  = Some (if state h = AHT21_STATE_WAIT_MEASURE then AHT21_ERR_BUSY
                          else trigger_outcome w, Some g, v)
                \<and> state g = (if state h \<noteq> AHT21_STATE_WAIT_MEASURE
                                  \<and> trigger_outcome w = AHT21_OK
                              then AHT21_STATE_WAIT_MEASURE else state h)"
    using b(1,2) by (rule aht21_trigger_measure_outcome)
  show "\<exists>g v. aht21_read_data (Some h) w = Some (read_outcome w, Some g, v)
                \<and> state g = (if read_outcome w = AHT21_OK then AHT21_STATE_READY
                              else state h)"
    using b by (rule aht21_read_data_outcome)
  show "\<exists>g v. aht21_soft_reset (Some h) w = Some (reset_outcome w, Some g, v)
                \<and> state g = (if reset_outcome w = AHT21_OK then AHT21_STATE_IDLE
                              else state h)"
    using b(1,2) by (rule aht21_soft_reset_outcome)
  show "\<exists>g v. aht21_ticks (Some h) w = Some (Some g, v)"
    using b by (rule aht21_ticks_defined)
  show "\<exists>r x g v. aht21_read_blocking (Some h) True True w = Some (r, x, Some g, v)"
    using b by (rule aht21_read_blocking_defined)
next
  assume "aht21_init (Some h0) (Some b) w = Some (r, Some h', w')"
  then show "state h' = (if r = AHT21_OK then AHT21_STATE_IDLE else AHT21_STATE_ERROR)"
    by (rule aht21_init_states)
next
  assume "iic_defined b"
  then show "\<exists>g v. aht21_init (Some h0) (Some b) w = Some (init_outcome w, Some g, v)
           \<and> state g = (if init_outcome w = AHT21_OK then AHT21_STATE_IDLE
                         else AHT21_STATE_ERROR)"
    by (rule aht21_init_outcome)
qed (simp_all add: aht21_init_null)

theorem error_state_is_never_entered_by_a_step_witness:
  "state (demo_aht21 AHT21_STATE_ERROR) = AHT21_STATE_ERROR
   \<and> state (demo_aht21 AHT21_STATE_IDLE) \<noteq> AHT21_STATE_ERROR
   \<and> iic (demo_aht21 AHT21_STATE_ERROR) = Some demo_bus
   \<and> iic (demo_aht21 AHT21_STATE_IDLE) = Some demo_bus \<and> iic_defined demo_bus
   \<and> length (raw_data (demo_aht21 AHT21_STATE_ERROR)) = 7
   \<and> length (raw_data (demo_aht21 AHT21_STATE_IDLE)) = 7
   \<and> (\<exists>g v. aht21_ticks (Some (demo_aht21 AHT21_STATE_ERROR)) (demo_world line_low)
               = Some (Some g, v) \<and> state g = AHT21_STATE_IDLE)
   \<and> (\<exists>g v. aht21_ticks (Some (demo_aht21 AHT21_STATE_ERROR)) (demo_world line_high)
               = Some (Some g, v) \<and> state g = AHT21_STATE_ERROR)
   \<and> (\<exists>g v. aht21_trigger_measure (Some (demo_aht21 AHT21_STATE_IDLE)) (demo_world line_high)
               = Some (AHT21_ERR_IIC, Some g, v)
             \<and> state g = AHT21_STATE_IDLE \<and> state g \<noteq> AHT21_STATE_ERROR)
   \<and> (\<exists>g v. aht21_read_data (Some (demo_aht21 AHT21_STATE_IDLE)) (demo_world line_high)
               = Some (AHT21_ERR_IIC, Some g, v) \<and> state g = AHT21_STATE_IDLE)
   \<and> (\<exists>g v. aht21_trigger_measure (Some (demo_aht21 AHT21_STATE_ERROR)) (demo_world line_low)
               = Some (AHT21_OK, Some g, v) \<and> state g = AHT21_STATE_WAIT_MEASURE)
   \<and> (\<exists>g v. aht21_init (Some (demo_aht21 AHT21_STATE_IDLE)) (Some demo_bus)
                 (demo_world line_high) = Some (AHT21_ERR_IIC, Some g, v)
             \<and> state g = AHT21_STATE_ERROR)
   \<and> (\<exists>g v. aht21_init (Some (demo_aht21 AHT21_STATE_IDLE)) (Some demo_bus)
                 (demo_world line_low) = Some (AHT21_ERR_NOT_INIT, Some g, v)
             \<and> state g = AHT21_STATE_ERROR)
   \<and> (\<exists>g v. aht21_init (Some (demo_aht21 AHT21_STATE_IDLE)) (Some demo_bus)
                 (demo_world line_calibrated) = Some (AHT21_OK, Some g, v)
             \<and> state g = AHT21_STATE_IDLE)"
proof -
  have low: "acked_prefix (sda_in (demo_world line_low)) (sda_pos (demo_world line_low)) 2 = 2"
    by (simp add: demo_acks)
  have high: "acked_prefix (sda_in (demo_world line_high)) (sda_pos (demo_world line_high)) 2 \<noteq> 2"
    by (simp add: demo_acks)
  have hyp: "state (demo_aht21 AHT21_STATE_ERROR) = AHT21_STATE_ERROR
      \<and> iic (demo_aht21 AHT21_STATE_ERROR) = Some demo_bus \<and> iic_defined demo_bus"
    by simp
  have bound: "iic (demo_aht21 st) = Some demo_bus \<and> iic_defined demo_bus
      \<and> length (raw_data (demo_aht21 st)) = 7" for st
    by simp
  have idle: "state (demo_aht21 AHT21_STATE_IDLE) \<noteq> AHT21_STATE_ERROR"
    by simp
  have recovered: "\<exists>g v. aht21_ticks (Some (demo_aht21 AHT21_STATE_ERROR)) (demo_world line_low)
               = Some (Some g, v) \<and> state g = AHT21_STATE_IDLE"
    using error_state_is_never_entered_by_a_step
        [where h = "demo_aht21 AHT21_STATE_ERROR" and w = "demo_world line_low"
           and b = demo_bus,
         THEN conjunct2, THEN conjunct1, rule_format, OF hyp]
    unfolding low by simp
  have stuck: "\<exists>g v. aht21_ticks (Some (demo_aht21 AHT21_STATE_ERROR)) (demo_world line_high)
               = Some (Some g, v) \<and> state g = AHT21_STATE_ERROR"
    using error_state_is_never_entered_by_a_step
        [where h = "demo_aht21 AHT21_STATE_ERROR" and w = "demo_world line_high"
           and b = demo_bus,
         THEN conjunct2, THEN conjunct1, rule_format, OF hyp] high
    by (simp only: if_False)
  note steps_high = error_state_is_never_entered_by_a_step
        [where h = "demo_aht21 AHT21_STATE_IDLE" and w = "demo_world line_high"
           and b = demo_bus,
         THEN conjunct2, THEN conjunct2, THEN conjunct1, rule_format, OF bound]
  from steps_high [THEN conjunct1] obtain g1 v1 where
    t1: "aht21_trigger_measure (Some (demo_aht21 AHT21_STATE_IDLE)) (demo_world line_high)
           = Some (AHT21_ERR_IIC, Some g1, v1)" and s1: "state g1 = AHT21_STATE_IDLE"
    by (auto simp add: demo_outcomes)
  have n1: "state g1 \<noteq> AHT21_STATE_ERROR"
    using error_state_is_never_entered_by_a_step
        [where h = "demo_aht21 AHT21_STATE_IDLE" and w = "demo_world line_high"
           and r = AHT21_ERR_IIC and h' = g1 and w' = v1,
         THEN conjunct1, rule_format, OF idle, THEN conjunct1, rule_format, OF t1]
    by simp
  have refused: "\<exists>g v. aht21_trigger_measure (Some (demo_aht21 AHT21_STATE_IDLE))
        (demo_world line_high) = Some (AHT21_ERR_IIC, Some g, v)
      \<and> state g = AHT21_STATE_IDLE \<and> state g \<noteq> AHT21_STATE_ERROR"
    using t1 s1 n1 by blast
  have unread: "\<exists>g v. aht21_read_data (Some (demo_aht21 AHT21_STATE_IDLE)) (demo_world line_high)
               = Some (AHT21_ERR_IIC, Some g, v) \<and> state g = AHT21_STATE_IDLE"
    using steps_high [THEN conjunct2, THEN conjunct1] by (simp add: demo_outcomes)
  have left: "\<exists>g v. aht21_trigger_measure (Some (demo_aht21 AHT21_STATE_ERROR))
        (demo_world line_low) = Some (AHT21_OK, Some g, v)
      \<and> state g = AHT21_STATE_WAIT_MEASURE"
    using error_state_is_never_entered_by_a_step
        [where h = "demo_aht21 AHT21_STATE_ERROR" and w = "demo_world line_low"
           and b = demo_bus,
         THEN conjunct2, THEN conjunct2, THEN conjunct1, rule_format, OF bound,
         THEN conjunct1]
    by (simp add: demo_outcomes)
  have init: "\<exists>g v. aht21_init (Some (demo_aht21 AHT21_STATE_IDLE)) (Some demo_bus) (demo_world f)
        = Some (init_outcome (demo_world f), Some g, v)
      \<and> state g = (if init_outcome (demo_world f) = AHT21_OK then AHT21_STATE_IDLE
                    else AHT21_STATE_ERROR)" for f
    using error_state_is_never_entered_by_a_step
        [where h0 = "demo_aht21 AHT21_STATE_IDLE" and w = "demo_world f" and b = demo_bus,
         THEN conjunct2, THEN conjunct2, THEN conjunct2, THEN conjunct2, THEN conjunct1,
         rule_format, OF demo_bus_defined] .
  have i1: "\<exists>g v. aht21_init (Some (demo_aht21 AHT21_STATE_IDLE)) (Some demo_bus)
                 (demo_world line_high) = Some (AHT21_ERR_IIC, Some g, v)
             \<and> state g = AHT21_STATE_ERROR"
    using init [of line_high] by (simp add: demo_outcomes)
  have i2: "\<exists>g v. aht21_init (Some (demo_aht21 AHT21_STATE_IDLE)) (Some demo_bus)
                 (demo_world line_low) = Some (AHT21_ERR_NOT_INIT, Some g, v)
             \<and> state g = AHT21_STATE_ERROR"
    using init [of line_low] by (simp add: demo_outcomes)
  have i3: "\<exists>g v. aht21_init (Some (demo_aht21 AHT21_STATE_IDLE)) (Some demo_bus)
                 (demo_world line_calibrated) = Some (AHT21_OK, Some g, v)
             \<and> state g = AHT21_STATE_IDLE"
    using init [of line_calibrated] by (simp add: demo_outcomes)
  show ?thesis
    using hyp bound [of AHT21_STATE_ERROR] bound [of AHT21_STATE_IDLE] idle recovered stuck
      refused unread left i1 i2 i3
    by blast
qed


text \<open>
  The claim as stated fails twice on the code. A trigger whose address byte is refused
  returns the bus error and leaves an IDLE driver in IDLE, not in ERROR; and a trigger
  that the device acknowledges takes a driver out of ERROR, into WAIT_MEASURE, with no
  soft reset.
\<close>

theorem error_state_left_by_trigger_not_entered_on_failure:
  "aht21_trigger_measure (Some (demo_aht21 AHT21_STATE_IDLE)) (demo_world line_high)
     = Some (AHT21_ERR_IIC,
             Some ((demo_aht21 AHT21_STATE_IDLE)\<lparr>iic := Some (demo_bus\<lparr>bus_busy := 0\<rparr>)\<rparr>),
             after (start_events demo_bus
                    @ concat (map (write_byte_events demo_bus) [push_bit 1 AHT21_ADDR])
                    @ stop_events demo_bus) 1 (demo_world line_high))
   \<and> state ((demo_aht21 AHT21_STATE_IDLE)\<lparr>iic := Some (demo_bus\<lparr>bus_busy := 0\<rparr>)\<rparr>)
       = AHT21_STATE_IDLE
   \<and> state (demo_aht21 AHT21_STATE_ERROR) = AHT21_STATE_ERROR
   \<and> aht21_trigger_measure (Some (demo_aht21 AHT21_STATE_ERROR)) (demo_world line_low)
       = Some (AHT21_OK,
               Some ((demo_aht21 AHT21_STATE_ERROR)
                 \<lparr>iic := Some (demo_bus\<lparr>bus_busy := 0\<rparr>), state := AHT21_STATE_WAIT_MEASURE,
                   measure_ticks := 0\<rparr>),
               after (trigger_events demo_bus) 4 (demo_world line_low))"
proof -
  have high: "acked_prefix (sda_in (demo_world line_high)) (sda_pos (demo_world line_high)) 4 = 0"
    by (simp add: line_high_def eval_nat_numeral)
  have refused:
    "aht21_trigger_measure (Some (demo_aht21 AHT21_STATE_IDLE)) (demo_world line_high)
     = Some (AHT21_ERR_IIC,
             Some ((demo_aht21 AHT21_STATE_IDLE)\<lparr>iic := Some (demo_bus\<lparr>bus_busy := 0\<rparr>)\<rparr>),
             after (start_events demo_bus
                    @ concat (map (write_byte_events demo_bus) [push_bit 1 AHT21_ADDR])
                    @ stop_events demo_bus) 1 (demo_world line_high))"
    using aht21_trigger_measure_run
        [of "demo_aht21 AHT21_STATE_IDLE" demo_bus "demo_world line_high", unfolded Let_def high]
    by simp
  have accepted:
    "aht21_trigger_measure (Some (demo_aht21 AHT21_STATE_ERROR)) (demo_world line_low)
       = Some (AHT21_OK,
               Some ((demo_aht21 AHT21_STATE_ERROR)
                 \<lparr>iic := Some (demo_bus\<lparr>bus_busy := 0\<rparr>), state := AHT21_STATE_WAIT_MEASURE,
                   measure_ticks := 0\<rparr>),
               after (trigger_events demo_bus) 4 (demo_world line_low))"
    by (rule aht21_trigger_measure_ok) (simp_all add: line_low_def)
  show ?thesis
    using refused accepted by simp
qed



section \<open>Protocol driver: decoding the reply\<close>


lemma aht21_parse_data_fields:
  "humidity (aht21_parse_data h)
     = f32_div (f32_mul (f32_of_u32 (humidity_raw (raw_data h))) 100) 1048576"
  "temperature (aht21_parse_data h)
     = f32_sub (f32_div (f32_mul (f32_of_u32 (temperature_raw (raw_data h))) 200) 1048576) 50"
  "raw_data (aht21_parse_data h) = raw_data h"
  "state (aht21_parse_data h) = state h"
  "iic (aht21_parse_data h) = iic h"
  "measure_ticks (aht21_parse_data h) = measure_ticks h"
  "measure_interval (aht21_parse_data h) = measure_interval h"
  by (simp_all add: aht21_parse_data_def humidity_raw_def temperature_raw_def Let_def)

lemma or_is_sum3:
  fixes a b c :: u32
  assumes "\<And>n. \<not> bit a n \<or> \<not> bit b n" "\<And>n. \<not> bit a n \<or> \<not> bit c n"
    "\<And>n. \<not> bit b n \<or> \<not> bit c n"
  shows "a OR b OR c = a + b + c"
proof -
  have "b OR c = b + c" using assms(3) by (simp add: disjunctive_add)
  moreover have "a OR (b OR c) = a + (b OR c)"
    using assms(1,2) by (intro disjunctive_add [symmetric]) (auto simp add: bit_or_iff)
  ultimately show ?thesis by (simp add: or.assoc add.assoc)
qed

lemma unat_byte [simp]: "unat (ucast (d :: u8) :: u32) = unat d"
  by (simp add: unsigned_ucast_eq take_bit_nat_eq_self unsigned_less [of d, simplified] 
      order_less_trans [OF unsigned_less [of d, simplified]])

lemma byte_bound: "unat (d :: u8) < 256"
  using unsigned_less [of d, where 'a = nat] by simp

lemma unat_byte_shifted:
  fixes d :: u8
  assumes "n \<le> 24"
  shows "unat (push_bit n (ucast d :: u32)) = unat d * 2 ^ n"
proof -
  have "unat d < 2 ^ 8" using byte_bound [of d] by simp
  then have "unat d * 2 ^ n < 2 ^ 8 * 2 ^ n" by simp
  also have "\<dots> = 2 ^ (8 + n)" by (simp add: power_add)
  also have "\<dots> \<le> (2 :: nat) ^ 32" using assms by (intro power_increasing) simp_all
  finally have small: "unat d * 2 ^ n < 2 ^ 32" .
  have "unat (push_bit n (ucast d :: u32)) = take_bit 32 (push_bit n (unat (ucast d :: u32)))"
    by (simp only: unsigned_push_bit_eq) simp
  also have "\<dots> = take_bit 32 (unat d * 2 ^ n)"
    by (simp only: unat_byte push_bit_eq_mult)
  also have "\<dots> = unat d * 2 ^ n"
    using small by (simp only: take_bit_nat_eq_self)
  finally show ?thesis .
qed

lemma humidity_raw_sum:
  "humidity_raw d
     = push_bit 12 (ucast (d ! 1)) + push_bit 4 (ucast (d ! 2)) + drop_bit 4 (ucast (d ! 3))"
  unfolding humidity_raw_def
  by (rule or_is_sum3) (auto simp add: bit_simps dest: bit_imp_le_length)

lemma temperature_raw_sum:
  "temperature_raw d
     = push_bit 16 (ucast (d ! 3) AND 0x0F) + push_bit 8 (ucast (d ! 4)) + ucast (d ! 5)"
  unfolding temperature_raw_def
  apply (rule or_is_sum3) 
  apply (auto simp add: bit_simps dest: bit_imp_le_length)
  done

lemma unat_sum3:
  fixes A B C :: u32
  assumes "unat A + unat B + unat C < 2 ^ 32"
  shows "unat (A + B + C) = unat A + unat B + unat C"
proof -
  have "unat A + unat B < 2 ^ LENGTH(32)" using assms by simp
  then have ab: "unat (A + B) = unat A + unat B" by (simp only: unat_add_lem)
  have "unat (A + B) + unat C < 2 ^ LENGTH(32)" using assms ab by simp
  then have "unat (A + B + C) = unat (A + B) + unat C" by (simp only: unat_add_lem)
  with ab show ?thesis by simp
qed

lemma top20_of_bytes:
  fixes d1 d2 d3 d4 d5 :: u8
  shows "unat (push_bit 12 (ucast d1) + push_bit 4 (ucast d2) + drop_bit 4 (ucast d3) :: u32)
     = (unat d1 * 2 ^ 32 + unat d2 * 2 ^ 24 + unat d3 * 2 ^ 16 + unat d4 * 2 ^ 8 + unat d5)
       div 2 ^ 20"
proof -
  define A :: u32 where "A = push_bit 12 (ucast d1)"
  define B :: u32 where "B = push_bit 4 (ucast d2)"
  define C :: u32 where "C = drop_bit 4 (ucast d3)"
  have a: "unat A = unat d1 * 2 ^ 12" unfolding A_def by (rule unat_byte_shifted) simp
  have b: "unat B = unat d2 * 2 ^ 4" unfolding B_def by (rule unat_byte_shifted) simp
  have c: "unat C = unat d3 div 2 ^ 4"
    unfolding C_def by (subst unat_drop_bit_eq) (simp add: drop_bit_eq_div)
  have bounds: "unat d1 < 256" "unat d2 < 256" "unat d3 < 256" "unat d4 < 256" "unat d5 < 256"
    by (rule byte_bound)+
  have "unat (A + B + C) = unat A + unat B + unat C"
    using bounds by (intro unat_sum3) (simp add: a b c)
  then show ?thesis
    unfolding A_def [symmetric] B_def [symmetric] C_def [symmetric] a b c
    using bounds by simp
qed

lemma bottom20_of_bytes:
  fixes d1 d2 d3 d4 d5 :: u8
  shows "unat (push_bit 16 (ucast d3 AND 0x0F) + push_bit 8 (ucast d4) + ucast d5 :: u32)
     = (unat d1 * 2 ^ 32 + unat d2 * 2 ^ 24 + unat d3 * 2 ^ 16 + unat d4 * 2 ^ 8 + unat d5)
       mod 2 ^ 20"
proof -
  define A :: u32 where "A = push_bit 16 (ucast d3 AND 0x0F)"
  define B :: u32 where "B = push_bit 8 (ucast d4)"
  define C :: u32 where "C = ucast d5"
  have nib: "(ucast d3 AND 0x0F :: u32) = ucast (d3 AND 0x0F)"
    by (auto simp add: bit_eq_iff bit_simps dest: bit_imp_le_length)
  have "(0x0F :: u8) = mask 4" by (simp add: mask_eq_exp_minus_1)
  then have "d3 AND 0x0F = take_bit 4 d3" by (simp only: take_bit_eq_mask)
  moreover have "unat (take_bit 4 d3) = take_bit 4 (unat d3)"
    by (rule unsigned_take_bit_eq)
  ultimately have low: "unat (d3 AND 0x0F) = unat d3 mod 2 ^ 4"
    by (simp only: take_bit_eq_mod)
  have a: "unat A = (unat d3 mod 2 ^ 4) * 2 ^ 16"
    unfolding A_def nib low [symmetric] by (rule unat_byte_shifted) simp
  have b: "unat B = unat d4 * 2 ^ 8" unfolding B_def by (rule unat_byte_shifted) simp
  have c: "unat C = unat d5" unfolding C_def by simp
  have bounds: "unat d1 < 256" "unat d2 < 256" "unat d3 < 256" "unat d4 < 256" "unat d5 < 256"
    by (rule byte_bound)+
  have n16: "unat d3 mod 2 ^ 4 < 16" by simp
  have "unat (A + B + C) = unat A + unat B + unat C"
    using bounds n16 by (intro unat_sum3) (simp add: a b c)
  moreover have "(unat d1 * 2 ^ 32 + unat d2 * 2 ^ 24 + unat d3 * 2 ^ 16 + unat d4 * 2 ^ 8 + unat d5)
       mod 2 ^ 20 = (unat d3 mod 2 ^ 4) * 2 ^ 16 + unat d4 * 2 ^ 8 + unat d5"
  proof -
    define q where "q = unat d1 * 4096 + unat d2 * 16 + unat d3 div 16"
    define r where "r = (unat d3 mod 16) * 65536 + unat d4 * 256 + unat d5"
    have "unat d3 = (unat d3 div 16) * 16 + unat d3 mod 16" by simp
    then have "unat d3 * 65536 = ((unat d3 div 16) * 16 + unat d3 mod 16) * 65536" by simp
    then have "unat d3 * 65536 = (unat d3 div 16) * 1048576 + (unat d3 mod 16) * 65536"
      by (simp only: distrib_right mult.assoc)
    then have split: "unat d1 * 2 ^ 32 + unat d2 * 2 ^ 24 + unat d3 * 2 ^ 16 + unat d4 * 2 ^ 8
        + unat d5 = q * 1048576 + r"
      by (simp add: q_def r_def)
    have "r < 1048576" using bounds n16 by (simp add: r_def)
    then have "(q * 1048576 + r) mod 2 ^ 20 = r" by simp
    then have "(unat d1 * 2 ^ 32 + unat d2 * 2 ^ 24 + unat d3 * 2 ^ 16 + unat d4 * 2 ^ 8
        + unat d5) mod 2 ^ 20 = r"
      by (simp only: split)
    then show ?thesis by (simp add: r_def)
  qed
  ultimately show ?thesis
    unfolding A_def [symmetric] B_def [symmetric] C_def [symmetric] a b c
    by simp
qed

lemma humidity_raw_top20: "unat (humidity_raw d) = packed40 d div 2 ^ 20"
  unfolding humidity_raw_sum packed40_def by (rule top20_of_bytes)

lemma temperature_raw_bottom20: "unat (temperature_raw d) = packed40 d mod 2 ^ 20"
  unfolding temperature_raw_sum packed40_def by (rule bottom20_of_bytes)

lemma rx_reply_length [simp]: "length (rx_reply f p) = 7"
  by (simp add: rx_reply_def)

text \<open>
  C1. When the status poll is acknowledged and reports a status byte whose busy bit is
  clear, and the address of the following read is acknowledged, \<open>aht21_read_data\<close>
  returns OK and stores the seven bytes of the reply as the raw buffer. With
  \<open>humidity_raw = raw[1] << 12 | raw[2] << 4 | raw[3] >> 4\<close> and
  \<open>temperature_raw = (raw[3] & 0x0F) << 16 | raw[4] << 8 | raw[5]\<close>, which are the top and
  the bottom 20 bits of the 40-bit number that bytes 1 to 5 spell, the stored humidity is
  \<open>humidity_raw * 100 / 2^20\<close> and the stored temperature is
  \<open>temperature_raw * 200 / 2^20 - 50\<close>, each operation being the binary32 one of the
  source, and the state is READY.
\<close>

theorem read_data_decodes_reply:
  assumes "iic h = Some b" and "iic_defined b" and "length (raw_data h) = 7"
    and "sda_in w (sda_pos w) = 0"
    and "rx_byte (sda_in w) (Suc (sda_pos w)) AND AHT21_STATUS_BUSY = 0"
    and "sda_in w (sda_pos w + 9) = 0"
  shows "\<exists>h' w'. aht21_read_data (Some h) w = Some (AHT21_OK, Some h', w')
     \<and> raw_data h' = rx_reply (sda_in w) (sda_pos w + 10)
     \<and> humidity_raw (raw_data h')
         = push_bit 12 (ucast (raw_data h' ! 1)) OR push_bit 4 (ucast (raw_data h' ! 2))
           OR drop_bit 4 (ucast (raw_data h' ! 3))
     \<and> unat (humidity_raw (raw_data h')) = packed40 (raw_data h') div 2 ^ 20
     \<and> temperature_raw (raw_data h')
         = push_bit 16 (ucast (raw_data h' ! 3) AND 0x0F) OR push_bit 8 (ucast (raw_data h' ! 4))
           OR ucast (raw_data h' ! 5)
     \<and> unat (temperature_raw (raw_data h')) = packed40 (raw_data h') mod 2 ^ 20
     \<and> humidity h' = f32_div (f32_mul (f32_of_u32 (humidity_raw (raw_data h'))) 100) 1048576
     \<and> temperature h'
         = f32_sub (f32_div (f32_mul (f32_of_u32 (temperature_raw (raw_data h'))) 200) 1048576) 50
     \<and> state h' = AHT21_STATE_READY"
proof -
  let ?g = "h\<lparr>iic := Some (b\<lparr>bus_busy := 0\<rparr>), raw_data := rx_reply (sda_in w) (sda_pos w + 10)\<rparr>"
  let ?h' = "(aht21_parse_data ?g)\<lparr>state := AHT21_STATE_READY\<rparr>"
  have run: "aht21_read_data (Some h) w
      = Some (AHT21_OK, Some ?h', after (status_events b @ reply_events b) 66 w)"
    using assms by (rule aht21_read_data_ok)
  have raw: "raw_data ?h' = rx_reply (sda_in w) (sda_pos w + 10)"
    by (simp add: aht21_parse_data_fields)
  have hum: "humidity ?h'
      = f32_div (f32_mul (f32_of_u32 (humidity_raw (raw_data ?h'))) 100) 1048576"
    by (simp add: aht21_parse_data_fields)
  have temp: "temperature ?h'
      = f32_sub (f32_div (f32_mul (f32_of_u32 (temperature_raw (raw_data ?h'))) 200) 1048576) 50"
    by (simp add: aht21_parse_data_fields)
  have ready: "state ?h' = AHT21_STATE_READY" by simp
  show ?thesis
    using run raw hum temp ready humidity_raw_top20 [of "raw_data ?h'"]
      temperature_raw_bottom20 [of "raw_data ?h'"]
      humidity_raw_def [of "raw_data ?h'"] temperature_raw_def [of "raw_data ?h'"]
    by blast
qed

lemma line_reply_bytes: "rx_reply line_reply 10 = [0, 0x80, 0, 0x04, 0, 0, 0]"
  by (simp add: rx_reply_def rx_byte_def line_reply_def eval_nat_numeral upt_conv_Cons
      del: upt_Suc)

lemma line_reply_status: "rx_byte line_reply (Suc 0) = 0"
  by (simp add: rx_byte_def line_reply_def eval_nat_numeral)

lemma half_scale_values:
  "f32_div (f32_mul (f32_of_u32 0x80000) 100) 1048576 = 50"
  "f32_sub (f32_div (f32_mul (f32_of_u32 0x40000) 200) 1048576) 50 = 0"
proof -
  have "f32_div (f32_mul (f32_round 524288) 100) 1048576 = 50" by code_simp
  then show "f32_div (f32_mul (f32_of_u32 0x80000) 100) 1048576 = 50"
    by (simp add: f32_of_u32_def)
  have "f32_sub (f32_div (f32_mul (f32_round 262144) 200) 1048576) 50 = 0" by code_simp
  then show "f32_sub (f32_div (f32_mul (f32_of_u32 0x40000) 200) 1048576) 50 = 0"
    by (simp add: f32_of_u32_def)
qed

theorem read_data_decodes_reply_witness:
  "iic (demo_aht21 AHT21_STATE_WAIT_MEASURE) = Some demo_bus \<and> iic_defined demo_bus
   \<and> length (raw_data (demo_aht21 AHT21_STATE_WAIT_MEASURE)) = 7
   \<and> sda_in (demo_world line_reply) (sda_pos (demo_world line_reply)) = 0
   \<and> rx_byte (sda_in (demo_world line_reply)) (Suc (sda_pos (demo_world line_reply)))
        AND AHT21_STATUS_BUSY = 0
   \<and> sda_in (demo_world line_reply) (sda_pos (demo_world line_reply) + 9) = 0
   \<and> (\<exists>h' w'. aht21_read_data (Some (demo_aht21 AHT21_STATE_WAIT_MEASURE))
                   (demo_world line_reply) = Some (AHT21_OK, Some h', w')
          \<and> raw_data h' = [0, 0x80, 0, 0x04, 0, 0, 0]
          \<and> humidity_raw (raw_data h') = 0x80000 \<and> temperature_raw (raw_data h') = 0x40000
          \<and> humidity h' = 50 \<and> temperature h' = 0 \<and> state h' = AHT21_STATE_READY)"
proof -
  let ?h = "demo_aht21 AHT21_STATE_WAIT_MEASURE"
  let ?w = "demo_world line_reply"
  have a: "iic ?h = Some demo_bus" by simp
  have b: "iic_defined demo_bus" by simp
  have c: "length (raw_data ?h) = 7" by simp
  have d: "sda_in ?w (sda_pos ?w) = 0" by (simp add: line_reply_def)
  have e: "rx_byte (sda_in ?w) (Suc (sda_pos ?w)) AND AHT21_STATUS_BUSY = 0"
    by (simp add: line_reply_status)
  have f: "sda_in ?w (sda_pos ?w + 9) = 0" by (simp add: line_reply_def)
  have hr: "humidity_raw [0, 0x80, 0, 0x04, 0, 0, 0] = 0x80000"
    by (simp add: humidity_raw_def)
  have tr: "temperature_raw [0, 0x80, 0, 0x04, 0, 0, 0] = 0x40000"
    by (simp add: temperature_raw_def)
  obtain h' w' where run: "aht21_read_data (Some ?h) ?w = Some (AHT21_OK, Some h', w')"
    and raw: "raw_data h' = rx_reply (sda_in ?w) (sda_pos ?w + 10)"
    and hum: "humidity h' = f32_div (f32_mul (f32_of_u32 (humidity_raw (raw_data h'))) 100) 1048576"
    and temp: "temperature h'
         = f32_sub (f32_div (f32_mul (f32_of_u32 (temperature_raw (raw_data h'))) 200) 1048576) 50"
    and ready: "state h' = AHT21_STATE_READY"
    using read_data_decodes_reply [OF a b c d e f] by blast
  have bytes: "raw_data h' = [0, 0x80, 0, 0x04, 0, 0, 0]"
    using raw by (simp add: line_reply_bytes)
  have "humidity h' = 50" "temperature h' = 0"
    using hum temp unfolding bytes hr tr half_scale_values by simp_all
  then show ?thesis
    using a b c d e f run bytes ready hr tr by auto
qed



section \<open>Backend adapter: translation\<close>

lemma aht21_trigger_measure_results:
  "aht21_trigger_measure (Some h) w = Some (r, g, v) \<Longrightarrow>
     r \<in> {AHT21_OK, AHT21_ERR_BUSY, AHT21_ERR_IIC}"
  by (auto simp add: aht21_trigger_measure_def Let_def
      split: Option.bind_splits prod.splits if_splits)

lemma aht21_read_data_results:
  "aht21_read_data (Some h) w = Some (r, g, v) \<Longrightarrow>
     r \<in> {AHT21_OK, AHT21_ERR_BUSY, AHT21_ERR_IIC}"
  by (auto simp add: aht21_read_data_def aht21_check_status_def Let_def
      split: Option.bind_splits prod.splits if_splits)

lemma aht21_soft_reset_results:
  "aht21_soft_reset (Some h) w = Some (r, g, v) \<Longrightarrow> r \<in> {AHT21_OK, AHT21_ERR_IIC}"
  by (auto simp add: aht21_soft_reset_def Let_def
      split: Option.bind_splits prod.splits if_splits)

lemma aht21_get_temperature_results:
  "fst (aht21_get_temperature (Some h) True) \<in> {AHT21_OK, AHT21_ERR_NOT_INIT}"
  "fst (aht21_get_humidity (Some h) True) \<in> {AHT21_OK, AHT21_ERR_NOT_INIT}"
  by (simp_all add: aht21_get_temperature_def aht21_get_humidity_def)

lemma adapter_maps_injective:
  "inj_on adapter_result {AHT21_OK, AHT21_ERR_BUSY, AHT21_ERR_IIC}"
  "inj_on adapter_reset_result {AHT21_OK, AHT21_ERR_IIC}"
  "inj_on adapter_getter_result {AHT21_OK, AHT21_ERR_NOT_INIT}"
  "inj_on adapter_state
     {AHT21_STATE_IDLE, AHT21_STATE_WAIT_MEASURE, AHT21_STATE_READY, AHT21_STATE_ERROR}"
  by (simp_all add: inj_on_def adapter_result_def adapter_reset_result_def
      adapter_getter_result_def adapter_state_def)

text \<open>
  C2. Every adapter operation is its driver operation followed by a translation of the
  result code, and returns whenever the driver operation does: trigger and read translate
  OK to OK, BUSY to BUSY and every other code to COMM; reset translates OK to OK and every
  other code to COMM; the two getters translate OK to OK and every other code to
  NOT_READY; init answers OK; the state accessor translates IDLE, WAIT_MEASURE, READY and
  ERROR to IDLE, MEASURING, READY and ERROR. The codes a driver operation returns on a
  handle that is not null are OK, BUSY and IIC for trigger and read, OK and IIC for reset,
  OK and NOT_INIT for the getters; on these, and on the four states named, each
  translation is one-to-one. Outside them it is not: the transient INIT state is
  reported as IDLE.
\<close>

theorem adapter_translation_total_and_lossless:
  "(aht21_trigger_measure (cast_handle handle p) (bus_world p) = Some (r, g, v) \<longrightarrow>
      aht21_adapter_trigger handle p = Some (adapter_result r, write_back handle g v p))
   \<and> (aht21_read_data (cast_handle handle p) (bus_world p) = Some (r, g, v) \<longrightarrow>
        aht21_adapter_read handle p = Some (adapter_result r, write_back handle g v p))
   \<and> (aht21_soft_reset (cast_handle handle p) (bus_world p) = Some (r, g, v) \<longrightarrow>
        aht21_adapter_reset handle p = Some (adapter_reset_result r, write_back handle g v p))
   \<and> aht21_adapter_get_temp handle out p
       = Some (adapter_getter_result (fst (aht21_get_temperature (cast_handle handle p) out)),
               snd (aht21_get_temperature (cast_handle handle p) out), p)
   \<and> aht21_adapter_get_humi handle out p
       = Some (adapter_getter_result (fst (aht21_get_humidity (cast_handle handle p) out)),
               snd (aht21_get_humidity (cast_handle handle p) out), p)
   \<and> aht21_adapter_init handle p = Some (SENSOR_OK, p)
   \<and> aht21_adapter_get_state (Some a) p = Some (adapter_state (state (devices p a)), p)
   \<and> (aht21_trigger_measure (Some h) w = Some (r, g, v) \<longrightarrow>
        r \<in> {AHT21_OK, AHT21_ERR_BUSY, AHT21_ERR_IIC})
   \<and> (aht21_read_data (Some h) w = Some (r, g, v) \<longrightarrow>
        r \<in> {AHT21_OK, AHT21_ERR_BUSY, AHT21_ERR_IIC})
   \<and> (aht21_soft_reset (Some h) w = Some (r, g, v) \<longrightarrow> r \<in> {AHT21_OK, AHT21_ERR_IIC})
   \<and> fst (aht21_get_temperature (Some h) True) \<in> {AHT21_OK, AHT21_ERR_NOT_INIT}
   \<and> fst (aht21_get_humidity (Some h) True) \<in> {AHT21_OK, AHT21_ERR_NOT_INIT}
   \<and> inj_on adapter_result {AHT21_OK, AHT21_ERR_BUSY, AHT21_ERR_IIC}
   \<and> inj_on adapter_reset_result {AHT21_OK, AHT21_ERR_IIC}
   \<and> inj_on adapter_getter_result {AHT21_OK, AHT21_ERR_NOT_INIT}
   \<and> inj_on adapter_state
        {AHT21_STATE_IDLE, AHT21_STATE_WAIT_MEASURE, AHT21_STATE_READY, AHT21_STATE_ERROR}
   \<and> adapter_state AHT21_STATE_INIT = SENSOR_STATE_IDLE"
proof (intro conjI impI)
  assume "aht21_trigger_measure (cast_handle handle p) (bus_world p) = Some (r, g, v)"
  then show "aht21_adapter_trigger handle p = Some (adapter_result r, write_back handle g v p)"
    by (simp add: aht21_adapter_trigger_def adapter_result_def Let_def)
next
  assume "aht21_read_data (cast_handle handle p) (bus_world p) = Some (r, g, v)"
  then show "aht21_adapter_read handle p = Some (adapter_result r, write_back handle g v p)"
    by (simp add: aht21_adapter_read_def adapter_result_def Let_def)
next
  assume "aht21_soft_reset (cast_handle handle p) (bus_world p) = Some (r, g, v)"
  then show "aht21_adapter_reset handle p
      = Some (adapter_reset_result r, write_back handle g v p)"
    by (simp add: aht21_adapter_reset_def adapter_reset_result_def)
next
  show "aht21_adapter_get_temp handle out p
       = Some (adapter_getter_result (fst (aht21_get_temperature (cast_handle handle p) out)),
               snd (aht21_get_temperature (cast_handle handle p) out), p)"
    by (simp add: aht21_adapter_get_temp_def adapter_getter_result_def split_beta)
  show "aht21_adapter_get_humi handle out p
       = Some (adapter_getter_result (fst (aht21_get_humidity (cast_handle handle p) out)),
               snd (aht21_get_humidity (cast_handle handle p) out), p)"
    by (simp add: aht21_adapter_get_humi_def adapter_getter_result_def split_beta)
  show "aht21_adapter_init handle p = Some (SENSOR_OK, p)"
    by (simp add: aht21_adapter_init_def)
  show "aht21_adapter_get_state (Some a) p = Some (adapter_state (state (devices p a)), p)"
    by (simp add: aht21_adapter_get_state_def cast_handle_def adapter_state_def)
  show "adapter_state AHT21_STATE_INIT = SENSOR_STATE_IDLE"
    by (simp add: adapter_state_def)
next
  assume "aht21_trigger_measure (Some h) w = Some (r, g, v)"
  then show "r \<in> {AHT21_OK, AHT21_ERR_BUSY, AHT21_ERR_IIC}"
    by (rule aht21_trigger_measure_results)
next
  assume "aht21_read_data (Some h) w = Some (r, g, v)"
  then show "r \<in> {AHT21_OK, AHT21_ERR_BUSY, AHT21_ERR_IIC}"
    by (rule aht21_read_data_results)
next
  assume "aht21_soft_reset (Some h) w = Some (r, g, v)"
  then show "r \<in> {AHT21_OK, AHT21_ERR_IIC}"
    by (rule aht21_soft_reset_results)
qed (rule aht21_get_temperature_results adapter_maps_injective)+

lemma demo_platform_fields [simp]:
  "bus_world (demo_platform st f) = demo_world f" "devices (demo_platform st f) a = demo_aht21 st"
  by (simp_all add: demo_platform_def)

theorem adapter_translation_total_and_lossless_witness:
  "aht21_trigger_measure (cast_handle (Some 0) (demo_platform AHT21_STATE_IDLE line_low))
       (bus_world (demo_platform AHT21_STATE_IDLE line_low))
     = Some (AHT21_OK,
             Some ((demo_aht21 AHT21_STATE_IDLE)
               \<lparr>iic := Some (demo_bus\<lparr>bus_busy := 0\<rparr>), state := AHT21_STATE_WAIT_MEASURE,
                 measure_ticks := 0\<rparr>),
             after (trigger_events demo_bus) 4 (demo_world line_low))
   \<and> aht21_adapter_trigger (Some 0) (demo_platform AHT21_STATE_IDLE line_low)
     = Some (SENSOR_OK,
             write_back (Some 0)
               (Some ((demo_aht21 AHT21_STATE_IDLE)
                 \<lparr>iic := Some (demo_bus\<lparr>bus_busy := 0\<rparr>), state := AHT21_STATE_WAIT_MEASURE,
                   measure_ticks := 0\<rparr>))
               (after (trigger_events demo_bus) 4 (demo_world line_low))
               (demo_platform AHT21_STATE_IDLE line_low))
   \<and> aht21_adapter_trigger (Some 0) (demo_platform AHT21_STATE_WAIT_MEASURE line_low)
     = Some (SENSOR_ERR_BUSY,
             write_back (Some 0) (Some (demo_aht21 AHT21_STATE_WAIT_MEASURE))
               (demo_world line_low) (demo_platform AHT21_STATE_WAIT_MEASURE line_low))"
proof -
  let ?p = "demo_platform AHT21_STATE_IDLE line_low"
  let ?q = "demo_platform AHT21_STATE_WAIT_MEASURE line_low"
  let ?g = "Some ((demo_aht21 AHT21_STATE_IDLE)
               \<lparr>iic := Some (demo_bus\<lparr>bus_busy := 0\<rparr>), state := AHT21_STATE_WAIT_MEASURE,
                 measure_ticks := 0\<rparr>)"
  let ?v = "after (trigger_events demo_bus) 4 (demo_world line_low)"
  have "aht21_trigger_measure (Some (demo_aht21 AHT21_STATE_IDLE)) (demo_world line_low)
      = Some (AHT21_OK, ?g, ?v)"
    by (rule aht21_trigger_measure_ok) (simp_all add: line_low_def)
  then have ok: "aht21_trigger_measure (cast_handle (Some 0) ?p) (bus_world ?p)
      = Some (AHT21_OK, ?g, ?v)"
    by (simp add: cast_handle_def)
  have busy: "aht21_trigger_measure (cast_handle (Some 0) ?q) (bus_world ?q)
      = Some (AHT21_ERR_BUSY, Some (demo_aht21 AHT21_STATE_WAIT_MEASURE), demo_world line_low)"
    by (simp add: cast_handle_def aht21_trigger_measure_def)
  have t1: "aht21_adapter_trigger (Some 0) ?p
      = Some (adapter_result AHT21_OK, write_back (Some 0) ?g ?v ?p)"
    using adapter_translation_total_and_lossless
      [of "Some 0" ?p AHT21_OK ?g ?v, THEN conjunct1, rule_format, OF ok] .
  have t2: "aht21_adapter_trigger (Some 0) ?q
      = Some (adapter_result AHT21_ERR_BUSY,
              write_back (Some 0) (Some (demo_aht21 AHT21_STATE_WAIT_MEASURE))
                (demo_world line_low) ?q)"
    using adapter_translation_total_and_lossless
      [of "Some 0" ?q AHT21_ERR_BUSY "Some (demo_aht21 AHT21_STATE_WAIT_MEASURE)"
          "demo_world line_low", THEN conjunct1, rule_format, OF busy] .
  show ?thesis
    using ok t1 t2 by (simp add: adapter_result_def)
qed



section \<open>Sensor abstraction: initialisation\<close>


text \<open>
  C10. Given a handle, an operations table and a driver handle, none of them null,
  \<open>sensor_init\<close> overwrites the instance with a zeroed one that carries the type, the
  table and the driver handle, with cached state IDLE and no registry link. When the
  table has an init slot the slot is called once on the driver handle and only its effect
  on the platform is kept: whatever result code it returns, success or failure, the
  instance is the same and nothing is reported, the function having no result. When the
  table has no init slot nothing is called.
\<close>

theorem sensor_init_discards_backend_result:
  "(ops_init tab = Some f \<and> f (Some d) (platform s) = Some (r, p) \<longrightarrow>
      sensor_init (Some a) ty (Some tab) (Some d) s
        = Some (s\<lparr>sensors := (sensors s)
                      (a := \<lparr>sensor_type = ty, sensor_ops = Some tab, driver_handle = Some d,
                             sensor_temperature = 0, sensor_humidity = 0,
                             sensor_state = SENSOR_STATE_IDLE, sensor_next = None\<rparr>),
                  platform := p\<rparr>))
   \<and> (ops_init tab = None \<longrightarrow>
        sensor_init (Some a) ty (Some tab) (Some d) s
          = Some (s\<lparr>sensors := (sensors s)
                        (a := \<lparr>sensor_type = ty, sensor_ops = Some tab, driver_handle = Some d,
                               sensor_temperature = 0, sensor_humidity = 0,
                               sensor_state = SENSOR_STATE_IDLE, sensor_next = None\<rparr>)\<rparr>))
   \<and> (sensor_init (Some a) ty (Some tab) (Some d) s = Some s' \<longrightarrow>
        sensor_state (sensors s' a) = SENSOR_STATE_IDLE
        \<and> sensor_temperature (sensors s' a) = 0 \<and> sensor_humidity (sensors s' a) = 0
        \<and> sensor_next (sensors s' a) = None \<and> sensor_type (sensors s' a) = ty
        \<and> sensor_ops (sensors s' a) = Some tab \<and> driver_handle (sensors s' a) = Some d)"
  by (auto simp add: sensor_init_def Let_def split: option.splits Option.bind_splits)

theorem sensor_init_discards_backend_result_witness:
  "ops_init failing_ops = Some (\<lambda>d calls. Some (SENSOR_ERR_INIT, Suc calls))
   \<and> (\<lambda>d calls. Some (SENSOR_ERR_INIT, Suc calls)) (Some (7 :: nat))
         (platform (empty_scheduler 0 :: (nat, nat) sensor_world))
       = Some (SENSOR_ERR_INIT, Suc 0)
   \<and> sensor_init (Some 3) SENSOR_TYPE_AHT21 (Some failing_ops) (Some 7) (empty_scheduler 0)
       = Some ((empty_scheduler 0)
           \<lparr>sensors := (sensors (empty_scheduler 0))
              (3 := \<lparr>sensor_type = SENSOR_TYPE_AHT21, sensor_ops = Some failing_ops,
                     driver_handle = Some 7, sensor_temperature = 0, sensor_humidity = 0,
                     sensor_state = SENSOR_STATE_IDLE, sensor_next = None\<rparr>),
             platform := Suc 0\<rparr>)"
proof -
  let ?s = "empty_scheduler 0 :: (nat, nat) sensor_world"
  let ?f = "\<lambda>(d :: nat option) calls. Some (SENSOR_ERR_INIT, Suc calls)"
  have ab: "ops_init failing_ops = Some ?f \<and> ?f (Some 7) (platform ?s) = Some (SENSOR_ERR_INIT, Suc 0)"
    by (simp add: failing_ops_def empty_scheduler_def)
  from sensor_init_discards_backend_result
      [of failing_ops ?f 7 ?s SENSOR_ERR_INIT "Suc 0" 3 SENSOR_TYPE_AHT21 ?s,
       THEN conjunct1, rule_format, OF ab]
  show ?thesis using ab by simp
qed



section \<open>Scheduler: the registry as a linked list\<close>



lemma chain_unique: "chain mem p xs \<Longrightarrow> chain mem p ys \<Longrightarrow> xs = ys"
proof (induction xs arbitrary: p ys)
  case Nil
  then show ?case by (cases ys) auto
next
  case (Cons x xs)
  then show ?case by (cases ys) auto
qed

lemma chain_suffix: "chain mem p (ys @ x # zs) \<Longrightarrow> chain mem (sensor_next (mem x)) zs"
  by (induction ys arbitrary: p) auto

lemma chain_head_not_in_tail:
  assumes "chain mem (sensor_next (mem x)) xs"
  shows "x \<notin> set xs"
proof
  assume "x \<in> set xs"
  then obtain ys zs where split: "xs = ys @ x # zs" by (auto simp add: in_set_conv_decomp)
  with assms have "chain mem (sensor_next (mem x)) zs" by (auto dest: chain_suffix)
  with assms have "xs = zs" by (rule chain_unique)
  with split show False by simp
qed

lemma chain_distinct: "chain mem p xs \<Longrightarrow> distinct xs"
  by (induction xs arbitrary: p) (auto dest: chain_head_not_in_tail)

lemma chain_same_links:
  "(\<And>x. x \<in> set xs \<Longrightarrow> sensor_next (mem' x) = sensor_next (mem x)) \<Longrightarrow>
   chain mem' p xs = chain mem p xs"
  by (induction xs arbitrary: p) auto

lemma sensor_start_loop_finds:
  "chain mem p xs \<Longrightarrow> sensor_start_loop mem p a = Some (a \<in> set xs)"
proof (induction xs arbitrary: p)
  case Nil
  then show ?case by (simp add: sensor_start_loop.simps)
next
  case (Cons x xs)
  then show ?case by (subst sensor_start_loop.simps) auto
qed

lemma sensor_start_registered:
  "registry s xs \<Longrightarrow> a \<in> set xs \<Longrightarrow> sensor_start (Some a) s = Some (- 1, s)"
  by (simp add: sensor_start_def registry_def sensor_start_loop_finds)

lemma sensor_start_fresh:
  assumes "registry s xs" and "a \<notin> set xs"
  shows "sensor_start (Some a) s
      = Some (0, s\<lparr>sensors := (sensors s)(a := (sensors s a)\<lparr>sensor_next := head_sensor s\<rparr>),
                   head_sensor := Some a\<rparr>)"
    and "registry (s\<lparr>sensors := (sensors s)(a := (sensors s a)\<lparr>sensor_next := head_sensor s\<rparr>),
                    head_sensor := Some a\<rparr>) (a # xs)"
proof -
  show "sensor_start (Some a) s
      = Some (0, s\<lparr>sensors := (sensors s)(a := (sensors s a)\<lparr>sensor_next := head_sensor s\<rparr>),
                   head_sensor := Some a\<rparr>)"
    using assms by (simp add: sensor_start_def registry_def sensor_start_loop_finds)
  have "chain ((sensors s)(a := (sensors s a)\<lparr>sensor_next := head_sensor s\<rparr>)) (head_sensor s) xs
      = chain (sensors s) (head_sensor s) xs"
    using assms(2) by (intro chain_same_links) auto
  with assms(1)
  show "registry (s\<lparr>sensors := (sensors s)(a := (sensors s a)\<lparr>sensor_next := head_sensor s\<rparr>),
                    head_sensor := Some a\<rparr>) (a # xs)"
    by (simp add: registry_def)
qed

lemma sensor_stop_loop_absent:
  "chain (sensors s) (load_link cur s) xs \<Longrightarrow> a \<notin> set xs \<Longrightarrow>
   sensor_stop_loop cur a s = Some s"
proof (induction xs arbitrary: cur)
  case Nil
  then show ?case by (subst sensor_stop_loop.simps) simp
next
  case (Cons x xs)
  from Cons.prems have "chain (sensors s) (load_link (Next_link x) s) xs"
    by (simp add: load_link_def)
  with Cons.IH Cons.prems have "sensor_stop_loop (Next_link x) a s = Some s" by simp
  with Cons.prems show ?case by (subst sensor_stop_loop.simps) auto
qed

lemma sensor_stop_loop_present:
  "chain (sensors s) (load_link cur s) (ys @ a # zs) \<Longrightarrow> a \<notin> set ys \<Longrightarrow>
   sensor_stop_loop cur a s
     = Some (unlink (if ys = [] then cur else Next_link (last ys)) a s)"
proof (induction ys arbitrary: cur)
  case Nil
  then show ?case
    by (subst sensor_stop_loop.simps) (simp add: unlink_def Let_def)
next
  case (Cons y ys)
  from Cons.prems have "chain (sensors s) (load_link (Next_link y) s) (ys @ a # zs)"
    by (simp add: load_link_def)
  with Cons.IH Cons.prems
  have "sensor_stop_loop (Next_link y) a s
      = Some (unlink (if ys = [] then Next_link y else Next_link (last ys)) a s)"
    by simp
  with Cons.prems show ?case by (subst sensor_stop_loop.simps) auto
qed

lemma chain_bypass:
  assumes "chain mem p (ys @ l # a # zs)" and "distinct (ys @ l # a # zs)"
    and "\<And>x. x \<noteq> l \<Longrightarrow> x \<noteq> a \<Longrightarrow> sensor_next (mem' x) = sensor_next (mem x)"
    and "sensor_next (mem' l) = sensor_next (mem a)"
  shows "chain mem' p (ys @ l # zs)"
  using assms(1,2)
proof (induction ys arbitrary: p)
  case Nil
  then have "chain mem (sensor_next (mem a)) zs" by simp
  moreover have "chain mem' (sensor_next (mem a)) zs = chain mem (sensor_next (mem a)) zs"
  proof (rule chain_same_links)
    fix x assume "x \<in> set zs"
    with Nil.prems(2) have "x \<noteq> l" "x \<noteq> a" by auto
    then show "sensor_next (mem' x) = sensor_next (mem x)" by (rule assms(3))
  qed
  ultimately show ?case using Nil.prems(1) assms(4) by simp
next
  case (Cons y ys)
  then have "sensor_next (mem' y) = sensor_next (mem y)"
    using assms(3) [of y] by auto
  with Cons show ?case by simp
qed




lemma unlink_next_fields:
  "sensors (unlink (Next_link l) a s) =
     (sensors s)(l := (sensors s l)\<lparr>sensor_next := sensor_next (sensors s a)\<rparr>,
                 a := (if a = l then (sensors s l)\<lparr>sensor_next := None\<rparr>
                       else (sensors s a)\<lparr>sensor_next := None\<rparr>))"
  "head_sensor (unlink (Next_link l) a s) = head_sensor s"
  "platform (unlink l' a s) = platform s"
  "sensors (unlink Head_link a s) = (sensors s)(a := (sensors s a)\<lparr>sensor_next := None\<rparr>)"
  "head_sensor (unlink Head_link a s) = sensor_next (sensors s a)"
  by (auto simp add: unlink_def store_link_def Let_def fun_upd_def split: link.splits)

lemma registry_unlink:
  assumes "registry s (ys @ a # zs)"
  shows "registry (unlink (if ys = [] then Head_link else Next_link (last ys)) a s) (ys @ zs)"
proof -
  have dist: "distinct (ys @ a # zs)"
    using assms unfolding registry_def by (rule chain_distinct)
  have tail: "chain (sensors s) (sensor_next (sensors s a)) zs"
    using assms unfolding registry_def by (rule chain_suffix)
  show ?thesis
  proof (cases "ys = []")
    case True
    have "chain ((sensors s)(a := (sensors s a)\<lparr>sensor_next := None\<rparr>))
        (sensor_next (sensors s a)) zs = chain (sensors s) (sensor_next (sensors s a)) zs"
    proof (rule chain_same_links)
      fix x assume "x \<in> set zs"
      with dist have "x \<noteq> a" by auto
      then show "sensor_next (((sensors s)(a := (sensors s a)\<lparr>sensor_next := None\<rparr>)) x)
          = sensor_next (sensors s x)" by simp
    qed
    with tail True show ?thesis
      by (simp add: registry_def unlink_next_fields)
  next
    case False
    then obtain ys' l where ys: "ys = ys' @ [l]" by (cases ys rule: rev_cases) auto
    let ?mem' = "sensors (unlink (Next_link l) a s)"
    have la: "l \<noteq> a" using dist ys by auto
    have "chain ?mem' (head_sensor s) (ys' @ l # zs)"
    proof (rule chain_bypass [where mem = "sensors s" and a = a])
      show "chain (sensors s) (head_sensor s) (ys' @ l # a # zs)"
        using assms by (simp add: registry_def ys)
      show "distinct (ys' @ l # a # zs)" using dist by (simp add: ys)
      show "sensor_next (?mem' x) = sensor_next (sensors s x)" if "x \<noteq> l" "x \<noteq> a" for x
        using that by (simp add: unlink_next_fields)
      show "sensor_next (?mem' l) = sensor_next (sensors s a)"
        using la by (simp add: unlink_next_fields)
    qed
    then have "registry (unlink (Next_link l) a s) (ys' @ l # zs)"
      by (simp add: registry_def unlink_next_fields(2))
    then show ?thesis
      using ys by simp
  qed
qed


lemma sensor_stop_registered:
  assumes "registry s xs" and "a \<in> set xs"
  shows "\<exists>s'. sensor_stop (Some a) s = Some s' \<and> registry s' (remove1 a xs)
           \<and> sensor_next (sensors s' a) = None \<and> platform s' = platform s"
proof -
  obtain ys zs where split: "xs = ys @ a # zs" and first: "a \<notin> set ys"
    using assms(2) by (auto dest: split_list_first)
  let ?l = "if ys = [] then Head_link else Next_link (last ys)"
  have "sensor_stop_loop Head_link a s = Some (unlink ?l a s)"
    using sensor_stop_loop_present [of s Head_link ys a zs] assms(1) first
    by (simp add: registry_def split load_link_def)
  moreover have "registry (unlink ?l a s) (ys @ zs)"
    using assms(1) unfolding split by (rule registry_unlink)
  moreover have "remove1 a xs = ys @ zs"
    using first by (simp add: split remove1_append)
  moreover have "sensor_next (sensors (unlink ?l a s) a) = None"
    by (cases "if ys = [] then Head_link else Next_link (last ys)")
       (simp_all add: unlink_def store_link_def Let_def)
  moreover have "platform (unlink ?l a s) = platform s"
    by (rule unlink_next_fields)
  ultimately show ?thesis by (simp add: sensor_stop_def)
qed



lemma sensor_stop_unregistered:
  "registry s xs \<Longrightarrow> a \<notin> set xs \<Longrightarrow> sensor_stop (Some a) s = Some s"
  using sensor_stop_loop_absent [of s Head_link xs a]
  by (simp add: sensor_stop_def registry_def load_link_def)



lemma registry_empty [simp]: "registry (empty_scheduler p) []"
  by (simp add: registry_def empty_scheduler_def)


text \<open>
  C7. The registry is the list of instances reached from \<open>head_sensor\<close> through the
  \<open>next\<close> links up to the null link. Such a list holds no instance twice. On it,
  \<open>sensor_start\<close> rejects a null handle with -2; on an instance already in the list it
  returns -1 and changes nothing; on any other instance it returns 0 and puts the instance
  in front of the list. \<open>sensor_stop\<close> changes nothing for a null handle and for an
  instance that is not in the list, and takes a listed instance out of it. After each of
  these the registry is again such a list, so it still holds no instance twice.
\<close>

theorem registry_never_holds_an_instance_twice:
  assumes "registry s xs"
  shows "distinct xs
     \<and> sensor_start None s = Some (- 2, s)
     \<and> (a \<in> set xs \<longrightarrow> sensor_start (Some a) s = Some (- 1, s))
     \<and> (a \<notin> set xs \<longrightarrow>
          (\<exists>s'. sensor_start (Some a) s = Some (0, s') \<and> registry s' (a # xs)
                \<and> distinct (a # xs) \<and> platform s' = platform s))
     \<and> sensor_stop None s = Some s
     \<and> (a \<notin> set xs \<longrightarrow> sensor_stop (Some a) s = Some s)
     \<and> (a \<in> set xs \<longrightarrow>
          (\<exists>s'. sensor_stop (Some a) s = Some s' \<and> registry s' (remove1 a xs)
                \<and> distinct (remove1 a xs) \<and> a \<notin> set (remove1 a xs)))"
proof (intro conjI impI)
  show dist: "distinct xs"
    using assms unfolding registry_def by (rule chain_distinct)
  show "sensor_start None s = Some (- 2, s)" by (simp add: sensor_start_def)
  show "sensor_stop None s = Some s" by (simp add: sensor_stop_def)
  {
    assume "a \<in> set xs"
    with assms show "sensor_start (Some a) s = Some (- 1, s)"
      by (rule sensor_start_registered)
  }
  {
    assume fresh: "a \<notin> set xs"
    let ?s' = "s\<lparr>sensors := (sensors s)(a := (sensors s a)\<lparr>sensor_next := head_sensor s\<rparr>),
                 head_sensor := Some a\<rparr>"
    have "sensor_start (Some a) s = Some (0, ?s')" "registry ?s' (a # xs)"
      using assms fresh by (rule sensor_start_fresh)+
    moreover have "distinct (a # xs)" using dist fresh by simp
    moreover have "platform ?s' = platform s" by simp
    ultimately show "\<exists>s'. sensor_start (Some a) s = Some (0, s') \<and> registry s' (a # xs)
                \<and> distinct (a # xs) \<and> platform s' = platform s"
      by blast
  }
  {
    assume "a \<notin> set xs"
    with assms show "sensor_stop (Some a) s = Some s" by (rule sensor_stop_unregistered)
  }
  {
    assume "a \<in> set xs"
    with assms obtain s' where "sensor_stop (Some a) s = Some s'" "registry s' (remove1 a xs)"
      using sensor_stop_registered by blast
    moreover have "distinct (remove1 a xs)" "a \<notin> set (remove1 a xs)"
      using dist by simp_all
    ultimately show "\<exists>s'. sensor_stop (Some a) s = Some s' \<and> registry s' (remove1 a xs)
                \<and> distinct (remove1 a xs) \<and> a \<notin> set (remove1 a xs)"
      by blast
  }
qed

theorem registry_never_holds_an_instance_twice_witness:
  "registry (empty_scheduler 0 :: (nat, nat) sensor_world) []
   \<and> (\<exists>s'. sensor_start (Some 5) (empty_scheduler 0 :: (nat, nat) sensor_world) = Some (0, s')
          \<and> registry s' [5]
          \<and> sensor_start (Some 5) s' = Some (- 1, s')
          \<and> (\<exists>s''. sensor_stop (Some 5) s' = Some s'' \<and> registry s'' []))"
proof -
  let ?s = "empty_scheduler 0 :: (nat, nat) sensor_world"
  have base: "registry ?s []" by simp
  obtain s' where first: "sensor_start (Some 5) ?s = Some (0, s')" and reg: "registry s' [5]"
    using registry_never_holds_an_instance_twice [OF base, of 5] by auto
  have again: "sensor_start (Some 5) s' = Some (- 1, s')"
    using registry_never_holds_an_instance_twice [OF reg, of 5] by simp
  obtain s'' where "sensor_stop (Some 5) s' = Some s''" "registry s'' []"
    using registry_never_holds_an_instance_twice [OF reg, of 5] by auto
  with base first reg again show ?thesis by blast
qed


section \<open>Scheduler: one pass of the tick\<close>

lemma same_links_refl [simp]: "same_links s s"
  by (simp add: same_links_def)

lemma same_links_trans: "same_links s s1 \<Longrightarrow> same_links s1 s2 \<Longrightarrow> same_links s s2"
  by (simp add: same_links_def)

lemma sensor_get_state_links:
  "sensor_get_state h s = Some (st, s') \<Longrightarrow> same_links s s'"
  by (auto simp: sensor_get_state_def same_links_def bind_eq_Some_conv
           split: option.splits prod.splits)

lemma sensor_trigger_measure_links:
  "sensor_trigger_measure h s = Some (r, s') \<Longrightarrow> same_links s s'"
  by (auto simp: sensor_trigger_measure_def same_links_def bind_eq_Some_conv Let_def
           split: option.splits prod.splits if_splits)

lemma sensor_reset_links:
  "sensor_reset h s = Some (r, s') \<Longrightarrow> same_links s s'"
  by (auto simp: sensor_reset_def same_links_def bind_eq_Some_conv Let_def
           split: option.splits prod.splits if_splits)

lemma sensor_read_data_links:
  "sensor_read_data h s = Some (r, s') \<Longrightarrow> same_links s s'"
  by (auto simp: sensor_read_data_def same_links_def bind_eq_Some_conv Let_def
           split: option.splits prod.splits if_splits)


lemma sensor_handler_drives:
  "sensor_handler (Some a) s =
     sensor_get_state (Some a) s \<bind> (\<lambda>(st, s1). drive (action_for st) a s1)"
  unfolding sensor_handler_def
  by (rule bind_option_cong [OF refl])
     (auto split: SensorState.splits prod.splits option.splits simp: map_option_case)

lemma drive_links: "drive act a s = Some s' \<Longrightarrow> same_links s s'"
  by (cases act)
     (auto dest: sensor_trigger_measure_links sensor_read_data_links sensor_reset_links)

lemma sensor_handler_links:
  assumes "sensor_handler (Some a) s = Some s'"
  shows "same_links s s'"
proof -
  from assms obtain st s1 where
    g: "sensor_get_state (Some a) s = Some (st, s1)" and d: "drive (action_for st) a s1 = Some s'"
    unfolding sensor_handler_drives by (auto simp: bind_eq_Some_conv)
  from sensor_get_state_links [OF g] drive_links [OF d] show ?thesis
    by (rule same_links_trans)
qed

lemma chain_links:
  "same_links s s' \<Longrightarrow> chain (sensors s') p xs = chain (sensors s) p xs"
  by (rule chain_same_links) (simp add: same_links_def)

lemma registry_links: "same_links s s' \<Longrightarrow> registry s' xs = registry s xs"
proof -
  assume l: "same_links s s'"
  then have "head_sensor s' = head_sensor s" by (simp add: same_links_def)
  with chain_links [OF l] show ?thesis by (simp add: registry_def)
qed

lemma sensor_ticks_loop_runs:
  "chain (sensors s) p xs \<Longrightarrow> sensor_ticks_loop p s = run_handlers xs s"
proof (induction xs arbitrary: p s)
  case Nil
  then show ?case by (simp add: sensor_ticks_loop.simps)
next
  case (Cons x xs)
  then have p: "p = Some x" and rest: "chain (sensors s) (sensor_next (sensors s x)) xs"
    by simp_all
  have "sensor_handler (Some x) s \<bind> (\<lambda>s'. sensor_ticks_loop (sensor_next (sensors s' x)) s')
        = sensor_handler (Some x) s \<bind> run_handlers xs"
  proof (rule bind_option_cong [OF refl])
    fix s'
    assume "s' \<in> set_option (sensor_handler (Some x) s)"
    then have "sensor_handler (Some x) s = Some s'" by simp
    then have l: "same_links s s'" by (rule sensor_handler_links)
    then have "sensor_next (sensors s' x) = sensor_next (sensors s x)"
      by (simp add: same_links_def)
    moreover have "chain (sensors s') (sensor_next (sensors s x)) xs"
      using rest chain_links [OF l] by simp
    ultimately show "sensor_ticks_loop (sensor_next (sensors s' x)) s' = run_handlers xs s'"
      using Cons.IH by simp
  qed
  then show ?case
    by (subst sensor_ticks_loop.simps) (simp add: p)
qed

lemma run_handlers_links: "run_handlers ys s = Some s' \<Longrightarrow> same_links s s'"
proof (induction ys arbitrary: s)
  case Nil
  then show ?case by simp
next
  case (Cons y ys)
  then obtain s1 where h: "sensor_handler (Some y) s = Some s1" and r: "run_handlers ys s1 = Some s'"
    by (auto simp: bind_eq_Some_conv)
  from sensor_handler_links [OF h] Cons.IH [OF r] show ?case by (rule same_links_trans)
qed

lemma sensor_handler_without_state_hook:
  "sensor_ops (sensors s a) = Some tab \<Longrightarrow> ops_get_state tab = None \<Longrightarrow>
   sensor_handler (Some a) s = map_option snd (sensor_reset (Some a) s)"
  by (simp add: sensor_handler_drives sensor_get_state_def)

lemma recording_bench_registry: "registry recording_bench []"
  by (simp add: registry_def recording_bench_def)


text \<open>
  C8. On a registry holding the instances \<open>xs\<close> (most recently registered first),
  one call of \<open>sensor_ticks\<close> is the handler of each instance of \<open>xs\<close> run once, in
  the order of \<open>xs\<close>; the list holds no instance twice and is the same registry after the
  pass. The handler of an instance asks the backend for the state and drives the one action
  of that state: trigger when IDLE, read when MEASURING, nothing when READY, reset when
  ERROR. An instance that \<open>sensor_start\<close> has just registered is handled first by the
  next pass, before the instances registered earlier.
\<close>

theorem sensor_ticks_runs_one_handler_per_instance:
  assumes "registry (s :: ('d, 'p) sensor_world) xs"
  shows "sensor_ticks s = run_handlers xs s
     \<and> distinct xs
     \<and> (\<forall>s'. sensor_ticks s = Some s' \<longrightarrow> registry s' xs)
     \<and> (\<forall>t :: ('d, 'p) sensor_world. sensor_handler (Some a) t =
              sensor_get_state (Some a) t \<bind> (\<lambda>(st, t1). drive (action_for st) a t1))
     \<and> action_for SENSOR_STATE_IDLE = Auto_trigger
     \<and> action_for SENSOR_STATE_MEASURING = Attempt_read
     \<and> action_for SENSOR_STATE_READY = No_op
     \<and> action_for SENSOR_STATE_ERROR = Attempt_reset
     \<and> (a \<notin> set xs \<longrightarrow>
          (\<exists>s'. sensor_start (Some a) s = Some (0, s')
                \<and> sensor_ticks s' = sensor_handler (Some a) s' \<bind> run_handlers xs))"
proof (intro conjI allI impI)
  show run: "sensor_ticks s = run_handlers xs s"
    using assms unfolding sensor_ticks_def registry_def by (rule sensor_ticks_loop_runs)
  show "distinct xs"
    using assms unfolding registry_def by (rule chain_distinct)
  show "registry s' xs" if "sensor_ticks s = Some s'" for s'
  proof -
    from that run have "run_handlers xs s = Some s'" by simp
    then have "same_links s s'" by (rule run_handlers_links)
    with assms show ?thesis by (simp add: registry_links)
  qed
  show "sensor_handler (Some a) t =
          sensor_get_state (Some a) t \<bind> (\<lambda>(st, t1). drive (action_for st) a t1)" for t :: "('d, 'p) sensor_world"
    by (rule sensor_handler_drives)
  show "\<exists>s'. sensor_start (Some a) s = Some (0, s')
                \<and> sensor_ticks s' = sensor_handler (Some a) s' \<bind> run_handlers xs"
    if fresh: "a \<notin> set xs"
  proof -
    let ?s' = "s\<lparr>sensors := (sensors s)(a := (sensors s a)\<lparr>sensor_next := head_sensor s\<rparr>),
                 head_sensor := Some a\<rparr>"
    have st: "sensor_start (Some a) s = Some (0, ?s')" and reg: "registry ?s' (a # xs)"
      using assms fresh by (rule sensor_start_fresh)+
    from reg have "sensor_ticks ?s' = run_handlers (a # xs) ?s'"
      unfolding sensor_ticks_def registry_def by (rule sensor_ticks_loop_runs)
    with st show ?thesis by simp
  qed
qed simp_all


theorem sensor_ticks_runs_one_handler_per_instance_witness:
  "\<exists>s1 s2 s3 s4 s'.
     sensor_start (Some 1) recording_bench = Some (0, s1)
     \<and> sensor_start (Some 2) s1 = Some (0, s2)
     \<and> sensor_start (Some 3) s2 = Some (0, s3)
     \<and> sensor_start (Some 4) s3 = Some (0, s4)
     \<and> registry s4 [4, 3, 2, 1]
     \<and> sensor_ticks s4 = Some s'
     \<and> platform s' =
         [(4, Call_get_state), (4, Call_reset),
          (3, Call_get_state),
          (2, Call_get_state), (2, Call_read), (2, Call_get_temp), (2, Call_get_humi),
          (1, Call_get_state), (1, Call_trigger)]
     \<and> registry s' [4, 3, 2, 1]"
proof -
  define reg where "reg = (\<lambda>a (s :: (nat, (nat \<times> backend_call) list) sensor_world).
     s\<lparr>sensors := (sensors s)(a := (sensors s a)\<lparr>sensor_next := head_sensor s\<rparr>),
       head_sensor := Some a\<rparr>)"
  define s1 where "s1 = reg 1 recording_bench"
  define s2 where "s2 = reg 2 s1"
  define s3 where "s3 = reg 3 s2"
  define s4 where "s4 = reg 4 s3"
  note r0 = recording_bench_registry
  have st1: "sensor_start (Some 1) recording_bench = Some (0, s1)" and r1: "registry s1 [1]"
    using sensor_start_fresh [OF r0, of 1] by (simp_all add: s1_def reg_def)
  have st2: "sensor_start (Some 2) s1 = Some (0, s2)" and r2: "registry s2 [2, 1]"
    using sensor_start_fresh [OF r1, of 2] by (simp_all add: s2_def reg_def)
  have st3: "sensor_start (Some 3) s2 = Some (0, s3)" and r3: "registry s3 [3, 2, 1]"
    using sensor_start_fresh [OF r2, of 3] by (simp_all add: s3_def reg_def)
  have st4: "sensor_start (Some 4) s3 = Some (0, s4)" and r4: "registry s4 [4, 3, 2, 1]"
    using sensor_start_fresh [OF r3, of 4] by (simp_all add: s4_def reg_def)
  note main = sensor_ticks_runs_one_handler_per_instance [OF r4, of 0]
  from main have run: "sensor_ticks s4 = run_handlers [4, 3, 2, 1] s4" by (rule conjunct1)
  have "\<exists>s'. run_handlers [4, 3, 2, 1] s4 = Some s'
     \<and> platform s' =
         [(4, Call_get_state), (4, Call_reset),
          (3, Call_get_state),
          (2, Call_get_state), (2, Call_read), (2, Call_get_temp), (2, Call_get_humi),
          (1, Call_get_state), (1, Call_trigger)]"
    by (simp add: s4_def s3_def s2_def s1_def reg_def recording_bench_def
          recording_sensor_def recording_ops_def record_call_def reported_state_def
          sensor_handler_def sensor_get_state_def sensor_trigger_measure_def
          sensor_read_data_def sensor_reset_def)
  then obtain s' where t: "sensor_ticks s4 = Some s'" and p: "platform s' =
         [(4, Call_get_state), (4, Call_reset),
          (3, Call_get_state),
          (2, Call_get_state), (2, Call_read), (2, Call_get_temp), (2, Call_get_humi),
          (1, Call_get_state), (1, Call_trigger)]"
    using run by auto
  from main t have "registry s' [4, 3, 2, 1]" by blast
  with st1 st2 st3 st4 r4 t p show ?thesis by blast
qed


end
